theory Spec2Isabelle
  imports Main "HOL-Library.Sublist" "HOL-Library.Monad_Syntax" "HOL-Library.Product_Lexorder"
    "HOL-Library.Multiset"
begin

section \<open>Python strings\<close>

text \<open>
  A Python \<open>str\<close> is modelled as a \<open>string\<close>, one \<open>char\<close> per code point, for the
  code points below 256.  The character classes are those of CPython on that range:
  \<open>str.isspace\<close> (used by \<open>str.strip\<close>, \<open>str.split()\<close> and the regular expression
  class \<open>\s\<close>) holds for the code points 9 to 13, 28 to 32, 133 and 160; the class \<open>\d\<close>
  holds for the ten ASCII digits.
\<close>

datatype error = ValueError | IndexError | OverflowError | KeyError

definition is_space :: "char \<Rightarrow> bool" where
  "is_space c = (of_char c \<in> set [9, 10, 11, 12, 13, 28, 29, 30, 31, 32, 133, 160 :: nat])"

definition is_digit :: "char \<Rightarrow> bool" where
  "is_digit c = ((48 :: nat) \<le> of_char c \<and> of_char c \<le> (57 :: nat))"

definition digit_val :: "char \<Rightarrow> int" where
  "digit_val c = int (of_char c) - 48"

definition lower_char :: "char \<Rightarrow> char" where
  "lower_char c =
     (if ((65 :: nat) \<le> of_char c \<and> of_char c \<le> (90 :: nat)) \<or>
         ((192 :: nat) \<le> of_char c \<and> of_char c \<le> (222 :: nat) \<and> of_char c \<noteq> (215 :: nat))
      then char_of (of_char c + (32 :: nat)) else c)"

definition lower :: "string \<Rightarrow> string" where
  "lower s = map lower_char s"

text \<open>\<open>s.strip()\<close>: leading and trailing whitespace removed.\<close>

definition strip :: "string \<Rightarrow> string" where
  "strip s = rev (dropWhile is_space (rev (dropWhile is_space s)))"

text \<open>
  \<open>s.split(sep)\<close> for a non-empty separator: the string is cut at every occurrence of
  \<open>sep\<close>, found from the left and not overlapping; the result always has at least one
  part.  (Both separators of the program, \<open>', '\<close> and \<open>' - '\<close>, are non-empty; Python
  raises on an empty one.)
\<close>

fun split :: "string \<Rightarrow> string \<Rightarrow> string list" where
  "split sep [] = [[]]"
| "split sep (c # cs) =
     (if sep \<noteq> [] \<and> prefix sep (c # cs)
      then [] # split sep (drop (length sep) (c # cs))
      else (case split sep cs of
              [] \<Rightarrow> [[c]]
            | p # ps \<Rightarrow> (c # p) # ps))"

text \<open>\<open>xs[i]\<close> for a non-negative index: \<open>IndexError\<close> when out of range.\<close>

definition index :: "'a list \<Rightarrow> nat \<Rightarrow> error + 'a" where
  "index xs i = (if i < length xs then Inr (xs ! i) else Inl IndexError)"

text \<open>\<open>int(s)\<close> on a run of decimal digits, possibly padded with whitespace.\<close>

definition py_int :: "string \<Rightarrow> int" where
  "py_int s = foldl (\<lambda>a c. 10 * a + digit_val c) 0 (strip s)"

section \<open>\<open>datetime.strptime\<close>\<close>

text \<open>
  CPython's \<open>_strptime\<close> turns a format into a regular expression, directive by
  directive, with every run of whitespace of the format replaced by \<open>\s+\<close>; it matches
  the expression at the start of the input, ignoring case, and raises \<open>ValueError\<close> when
  there is no match or when the match ends before the input does.  A matcher below
  returns the ways its expression matches a prefix of the input, in the order in which
  the backtracking matcher tries them, each with the matched text and the rest of the
  input; the first complete way is the match.

  The directives the program uses (C locale):
  \<^item> \<open>%I\<close> is \<open>1[0-2]|0[1-9]|[1-9]\<close>;
  \<^item> \<open>%M\<close> is \<open>[0-5]\d|\d\<close>;
  \<^item> \<open>%p\<close> is \<open>am|pm\<close>;
  \<^item> \<open>%b\<close> is \<open>jan|feb|mar|apr|may|jun|jul|aug|sep|oct|nov|dec\<close>;
  \<^item> \<open>%d\<close> is \<open>3[0-1]|[1-2]\d|0[1-9]|[1-9]| [1-9]\<close>;
  \<^item> \<open>%m\<close> is \<open>1[0-2]|0[1-9]|[1-9]\<close>;
  \<^item> \<open>%Y\<close> is \<open>\d\d\d\d\<close>.
\<close>

type_synonym matcher = "string \<Rightarrow> (string \<times> string) list"

text \<open>A fixed number of characters, the matched text satisfying a test.\<close>

definition re_chars :: "nat \<Rightarrow> (string \<Rightarrow> bool) \<Rightarrow> matcher" where
  "re_chars n P s = (if n \<le> length s \<and> P (take n s) then [(take n s, drop n s)] else [])"

text \<open>A literal, compared ignoring case.\<close>

definition re_lit :: "string \<Rightarrow> matcher" where
  "re_lit l = re_chars (length l) (\<lambda>t. lower t = lower l)"

text \<open>\<open>\s+\<close>, greedy: the longest run of whitespace first, then the shorter ones.\<close>

fun re_spaces :: "string \<Rightarrow> string list" where
  "re_spaces [] = []"
| "re_spaces (c # cs) = (if is_space c then re_spaces cs @ [cs] else [])"

definition in_range :: "char \<Rightarrow> char \<Rightarrow> char \<Rightarrow> bool" where
  "in_range lo hi c = ((of_char lo :: nat) \<le> of_char c \<and> (of_char c :: nat) \<le> of_char hi)"

definition re_I :: matcher where
  "re_I s =
     re_chars 2 (\<lambda>t. t ! 0 = CHR ''1'' \<and> in_range CHR ''0'' CHR ''2'' (t ! 1)) s @
     re_chars 2 (\<lambda>t. t ! 0 = CHR ''0'' \<and> in_range CHR ''1'' CHR ''9'' (t ! 1)) s @
     re_chars 1 (\<lambda>t. in_range CHR ''1'' CHR ''9'' (t ! 0)) s"

definition re_M :: matcher where
  "re_M s =
     re_chars 2 (\<lambda>t. in_range CHR ''0'' CHR ''5'' (t ! 0) \<and> is_digit (t ! 1)) s @
     re_chars 1 (\<lambda>t. is_digit (t ! 0)) s"

definition re_p :: matcher where
  "re_p s = re_lit ''am'' s @ re_lit ''pm'' s"

text \<open>
  \<open>datetime.strptime(s, "%I:%M %p")\<close>: the hour and the minute of the result (its date
  is the first day of 1900, and nothing reads it).
\<close>

definition match_I_M_p :: "string \<Rightarrow> ((string \<times> string \<times> string) \<times> string) list" where
  "match_I_M_p s =
     do {
       (I, r1) \<leftarrow> re_I s;
       (_, r2) \<leftarrow> re_lit '':'' r1;
       (M, r3) \<leftarrow> re_M r2;
       r4 \<leftarrow> re_spaces r3;
       (p, r5) \<leftarrow> re_p r4;
       [((I, M, p), r5)]
     }"

definition hour_of :: "string \<Rightarrow> string \<Rightarrow> int" where
  "hour_of I p =
     (let hour = py_int I; ampm = lower p
      in if ampm = ''am'' then (if hour = 12 then 0 else hour)
         else (if hour \<noteq> 12 then hour + 12 else hour))"

definition strptime_I_M_p :: "string \<Rightarrow> error + (int \<times> int)" where
  "strptime_I_M_p s =
     (case match_I_M_p s of
        [] \<Rightarrow> Inl ValueError
      | ((I, M, p), rest) # _ \<Rightarrow>
          if rest \<noteq> [] then Inl ValueError
          else Inr (hour_of I p, py_int M))"

section \<open>The time parser\<close>

definition parse_time_to_minutes :: "string \<Rightarrow> int" where
  "parse_time_to_minutes time_str =
     (if time_str = [] \<or> time_str = ''No time found'' then 0
      else
        let time_parts = split '' - '' time_str
        in if time_parts = [] then 0
           else
             let start_time = strip (hd time_parts)
             in case strptime_I_M_p start_time of
                  Inr (hour, minute) \<Rightarrow> hour * 60 + minute
                | Inl _ \<Rightarrow> 0)"

section \<open>Dates\<close>

text \<open>
  A \<open>datetime\<close> is modelled by the pair of its proleptic Gregorian ordinal (Python's
  \<open>toordinal()\<close>: day 1 is 0001-01-01) and the microsecond within its day.  Python
  compares two datetimes field by field, from the year down; on the pairs this is the
  lexicographic order.  The calendar arithmetic is that of CPython's \<open>datetime\<close>.
\<close>

type_synonym datetime = "int \<times> int"

definition is_leap :: "int \<Rightarrow> bool" where
  "is_leap year = (year mod 4 = 0 \<and> (year mod 100 \<noteq> 0 \<or> year mod 400 = 0))"

definition days_before_year :: "int \<Rightarrow> int" where
  "days_before_year year =
     (year - 1) * 365 + (year - 1) div 4 - (year - 1) div 100 + (year - 1) div 400"

definition days_in_month :: "int \<Rightarrow> int \<Rightarrow> int" where
  "days_in_month year month =
     (if month = 2 \<and> is_leap year then 29
      else [31, 28, 31, 30, 31, 30, 31, 31, 30, 31, 30, 31] ! nat (month - 1))"

definition days_before_month :: "int \<Rightarrow> int \<Rightarrow> int" where
  "days_before_month year month =
     [0, 31, 59, 90, 120, 151, 181, 212, 243, 273, 304, 334] ! nat (month - 1) +
     (if month > 2 \<and> is_leap year then 1 else 0)"

definition ymd2ord :: "int \<Rightarrow> int \<Rightarrow> int \<Rightarrow> int" where
  "ymd2ord year month day = days_before_year year + days_before_month year month + day"

definition MAXORDINAL :: int where
  "MAXORDINAL = 3652059"

text \<open>\<open>datetime.max\<close>: the last microsecond of 9999-12-31.\<close>

definition datetime_max :: datetime where
  "datetime_max = (MAXORDINAL, 86399999999)"

text \<open>
  \<open>datetime(year, month, day)\<close>, at midnight: \<open>ValueError\<close> unless the year is between 1
  and 9999 and the day exists in the month.
\<close>

definition mk_datetime :: "int \<Rightarrow> int \<Rightarrow> int \<Rightarrow> error + datetime" where
  "mk_datetime year month day =
     (if 1 \<le> year \<and> year \<le> 9999 \<and> 1 \<le> month \<and> month \<le> 12 \<and>
         1 \<le> day \<and> day \<le> days_in_month year month
      then Inr (ymd2ord year month day, 0)
      else Inl ValueError)"

text \<open>\<open>dt.weekday()\<close>: Monday is 0, Sunday is 6.\<close>

definition weekday :: "datetime \<Rightarrow> int" where
  "weekday dt = (fst dt + 6) mod 7"

text \<open>
  \<open>dt + timedelta(days=n)\<close>; \<open>dt - timedelta(days=n)\<close> is \<open>add_days dt (- n)\<close>.  Python
  raises \<open>OverflowError\<close> when the result leaves the years 1 to 9999.
\<close>

definition add_days :: "datetime \<Rightarrow> int \<Rightarrow> error + datetime" where
  "add_days dt n =
     (if 0 < fst dt + n \<and> fst dt + n \<le> MAXORDINAL then Inr (fst dt + n, snd dt)
      else Inl OverflowError)"

subsection \<open>The date formats\<close>

definition month_names :: "string list" where
  "month_names = [''jan'', ''feb'', ''mar'', ''apr'', ''may'', ''jun'',
                  ''jul'', ''aug'', ''sep'', ''oct'', ''nov'', ''dec'']"

definition re_b :: matcher where
  "re_b s = concat (map (\<lambda>name. re_lit name s) month_names)"

definition re_d :: matcher where
  "re_d s =
     re_chars 2 (\<lambda>t. t ! 0 = CHR ''3'' \<and> in_range CHR ''0'' CHR ''1'' (t ! 1)) s @
     re_chars 2 (\<lambda>t. in_range CHR ''1'' CHR ''2'' (t ! 0) \<and> is_digit (t ! 1)) s @
     re_chars 2 (\<lambda>t. t ! 0 = CHR ''0'' \<and> in_range CHR ''1'' CHR ''9'' (t ! 1)) s @
     re_chars 1 (\<lambda>t. in_range CHR ''1'' CHR ''9'' (t ! 0)) s @
     re_chars 2 (\<lambda>t. t ! 0 = CHR '' '' \<and> in_range CHR ''1'' CHR ''9'' (t ! 1)) s"

definition re_m :: matcher where
  "re_m s =
     re_chars 2 (\<lambda>t. t ! 0 = CHR ''1'' \<and> in_range CHR ''0'' CHR ''2'' (t ! 1)) s @
     re_chars 2 (\<lambda>t. t ! 0 = CHR ''0'' \<and> in_range CHR ''1'' CHR ''9'' (t ! 1)) s @
     re_chars 1 (\<lambda>t. in_range CHR ''1'' CHR ''9'' (t ! 0)) s"

definition re_Y :: matcher where
  "re_Y s = re_chars 4 (\<lambda>t. list_all is_digit t) s"

text \<open>The month a matched \<open>%b\<close> text names: its place among the month names, from 1.\<close>

definition month_number :: "string \<Rightarrow> error + int" where
  "month_number b =
     (case map_of (zip month_names [1 ..< 13]) (lower b) of
        None \<Rightarrow> Inl ValueError
      | Some n \<Rightarrow> Inr (int n))"

text \<open>\<open>datetime.strptime(s, "%b %d, %Y")\<close>.\<close>

definition match_b_d_Y :: "string \<Rightarrow> ((string \<times> string \<times> string) \<times> string) list" where
  "match_b_d_Y s =
     do {
       (b, r1) \<leftarrow> re_b s;
       r2 \<leftarrow> re_spaces r1;
       (d, r3) \<leftarrow> re_d r2;
       (_, r4) \<leftarrow> re_lit '','' r3;
       r5 \<leftarrow> re_spaces r4;
       (Y, r6) \<leftarrow> re_Y r5;
       [((b, d, Y), r6)]
     }"

definition strptime_b_d_Y :: "string \<Rightarrow> error + datetime" where
  "strptime_b_d_Y s =
     (case match_b_d_Y s of
        [] \<Rightarrow> Inl ValueError
      | ((b, d, Y), rest) # _ \<Rightarrow>
          if rest \<noteq> [] then Inl ValueError
          else (case month_number b of
                  Inl e \<Rightarrow> Inl e
                | Inr month \<Rightarrow> mk_datetime (py_int Y) month (py_int d)))"

text \<open>\<open>datetime.strptime(s, "%Y-%m-%d")\<close>.\<close>

definition match_Y_m_d :: "string \<Rightarrow> ((string \<times> string \<times> string) \<times> string) list" where
  "match_Y_m_d s =
     do {
       (Y, r1) \<leftarrow> re_Y s;
       (_, r2) \<leftarrow> re_lit ''-'' r1;
       (m, r3) \<leftarrow> re_m r2;
       (_, r4) \<leftarrow> re_lit ''-'' r3;
       (d, r5) \<leftarrow> re_d r4;
       [((Y, m, d), r5)]
     }"

definition strptime_Y_m_d :: "string \<Rightarrow> error + datetime" where
  "strptime_Y_m_d s =
     (case match_Y_m_d s of
        [] \<Rightarrow> Inl ValueError
      | ((Y, m, d), rest) # _ \<Rightarrow>
          if rest \<noteq> [] then Inl ValueError
          else mk_datetime (py_int Y) (py_int m) (py_int d))"

section \<open>Events\<close>

text \<open>
  An event is a Python dict from field names to strings; a dict is modelled as the list
  of its items, in insertion order, with distinct keys.
\<close>

type_synonym ('k, 'v) dict = "('k \<times> 'v) list"

type_synonym event = "(string, string) dict"

text \<open>\<open>d.get(k, dflt)\<close>.\<close>

definition dict_get :: "('k, 'v) dict \<Rightarrow> 'k \<Rightarrow> 'v \<Rightarrow> 'v" where
  "dict_get d k dflt = (case map_of d k of None \<Rightarrow> dflt | Some v \<Rightarrow> v)"

text \<open>\<open>d[k]\<close>: \<open>KeyError\<close> when the key is missing.\<close>

definition dict_item :: "('k, 'v) dict \<Rightarrow> 'k \<Rightarrow> error + 'v" where
  "dict_item d k = (case map_of d k of None \<Rightarrow> Inl KeyError | Some v \<Rightarrow> Inr v)"

text \<open>\<open>d[k] = v\<close>: a present key keeps its place, a new one goes last.\<close>

fun dict_set :: "('k, 'v) dict \<Rightarrow> 'k \<Rightarrow> 'v \<Rightarrow> ('k, 'v) dict" where
  "dict_set [] k v = [(k, v)]"
| "dict_set ((k', v') # d) k v = (if k' = k then (k, v) # d else (k', v') # dict_set d k v)"

text \<open>
  The date text of an event as both routines parse it, inside their \<open>try\<close>: segments 1
  and 2 of \<open>date_str.split(', ')\<close>, joined by \<open>', '\<close>, read with \<open>"%b %d, %Y"\<close>.
\<close>

definition parse_date_part :: "string \<Rightarrow> error + datetime" where
  "parse_date_part date_str =
     (case index (split '', '' date_str) 1 of
        Inl e \<Rightarrow> Inl e
      | Inr month_day \<Rightarrow>
          (case index (split '', '' date_str) 2 of
             Inl e \<Rightarrow> Inl e
           | Inr year \<Rightarrow> strptime_b_d_Y (month_day @ '', '' @ year)))"

section \<open>The organiser\<close>

text \<open>\<open>events_by_date[date].append(event)\<close> on a \<open>defaultdict(list)\<close>.\<close>

fun append_to_date :: "(string, event list) dict \<Rightarrow> string \<Rightarrow> event \<Rightarrow> (string, event list) dict" where
  "append_to_date [] date event = [(date, [event])]"
| "append_to_date ((k, es) # d) date event =
     (if k = date then (k, es @ [event]) # d else (k, es) # append_to_date d date event)"

definition parse_date_for_sorting :: "string \<Rightarrow> datetime" where
  "parse_date_for_sorting date_str =
     (case parse_date_part date_str of Inr d \<Rightarrow> d | Inl _ \<Rightarrow> datetime_max)"

text \<open>The last loop of the organiser: \<open>final_organized[date] = organized_events[date]\<close>.\<close>

fun final_loop ::
  "(string, event list) dict \<Rightarrow> string list \<Rightarrow> (string, event list) dict \<Rightarrow>
   error + (string, event list) dict" where
  "final_loop organized_events [] final_organized = Inr final_organized"
| "final_loop organized_events (date # dates) final_organized =
     (case dict_item organized_events date of
        Inl e \<Rightarrow> Inl e
      | Inr es \<Rightarrow> final_loop organized_events dates (dict_set final_organized date es))"

definition organize_events_by_date :: "event list \<Rightarrow> error + (string, event list) dict" where
  "organize_events_by_date events_data =
     (let events_by_date =
            foldl (\<lambda>d event. append_to_date d (dict_get event ''date'' ''No date found'') event)
              [] events_data;
          organized_events =
            map (\<lambda>(date, es).
                   (date, sort_key (\<lambda>x. parse_time_to_minutes (dict_get x ''time'' [])) es))
              events_by_date;
          sorted_dates = sort_key parse_date_for_sorting (map fst organized_events)
      in final_loop organized_events sorted_dates [])"

section \<open>The week filter\<close>

definition day_mapping :: "(string, int) dict" where
  "day_mapping = [(''Monday'', 0), (''Tuesday'', 1), (''Wednesday'', 2), (''Thursday'', 3),
                  (''Friday'', 4), (''Saturday'', 5), (''Sunday'', 6)]"

text \<open>The first and the last day of the week of \<open>target_date\<close>, for a week start number.\<close>

definition week_bounds :: "datetime \<Rightarrow> int \<Rightarrow> error + (datetime \<times> datetime)" where
  "week_bounds target_date week_start_num =
     (let days_since_week_start = (weekday target_date - week_start_num) mod 7
      in case add_days target_date (- days_since_week_start) of
           Inl e \<Rightarrow> Inl e
         | Inr week_start \<Rightarrow>
             (case add_days week_start 6 of
                Inl e \<Rightarrow> Inl e
              | Inr week_end \<Rightarrow> Inr (week_start, week_end)))"

text \<open>The body of the filtering loop: whether the event is appended.\<close>

definition in_week :: "datetime \<Rightarrow> datetime \<Rightarrow> event \<Rightarrow> bool" where
  "in_week week_start week_end event =
     (let date_str = dict_get event ''date'' ''No date found''
      in if date_str = ''No date found'' then False
         else (case parse_date_part date_str of
                 Inl _ \<Rightarrow> False
               | Inr event_date \<Rightarrow> week_start \<le> event_date \<and> event_date \<le> week_end))"

text \<open>The inner function \<open>sort_key\<close> of the week filter.\<close>

definition sort_key_event :: "event \<Rightarrow> datetime \<times> int" where
  "sort_key_event event =
     (let date_str = dict_get event ''date'' ''No date found''
      in if date_str = ''No date found'' then (datetime_max, 0)
         else (case parse_date_part date_str of
                 Inl _ \<Rightarrow> (datetime_max, 0)
               | Inr event_date \<Rightarrow>
                   (event_date, parse_time_to_minutes (dict_get event ''time'' []))))"

definition filter_events_by_week :: "event list \<Rightarrow> string \<Rightarrow> string \<Rightarrow> error + event list" where
  "filter_events_by_week events_data target_week_start week_start_day =
     (let week_start_num = dict_get day_mapping week_start_day 0
      in case strptime_Y_m_d target_week_start of
           Inl _ \<Rightarrow> Inr []
         | Inr target_date \<Rightarrow>
             (case week_bounds target_date week_start_num of
                Inl e \<Rightarrow> Inl e
              | Inr (week_start, week_end) \<Rightarrow>
                  Inr (sort_key sort_key_event
                         (filter (in_week week_start week_end) events_data))))"

section \<open>The description extractor\<close>

text \<open>
  The parsed document is the value of an HTML library that the program only queries.  It
  is modelled by what the queries of \<open>extract_description\<close> return on it: for each
  element of \<open>soup.select('div.container')\<close>, in document order, its
  \<open>get_text(strip=True)\<close> and the \<open>get_text(strip=True)\<close> of each tag of its four
  selections \<open>'p'\<close>, \<open>'p > i'\<close>, \<open>'ul > li'\<close> and \<open>'p > a'\<close>; and for
  \<open>soup.select_one('main > div')\<close>, when there is one, the \<open>.string\<close> of each of its
  children (\<open>None\<close> for a child that has no single string).
\<close>

record container =
  container_text :: string
  p_texts :: "string list"
  i_texts :: "string list"
  li_texts :: "string list"
  a_texts :: "string list"

record soup =
  containers :: "container list"
  main_div :: "string option list option"

text \<open>
  One collecting loop: each text that is not empty, not yet in \<open>description_parts\<close> and
  longer than the bound is appended.
\<close>

fun collect_texts :: "nat \<Rightarrow> string list \<Rightarrow> string list \<Rightarrow> string list" where
  "collect_texts bound description_parts [] = description_parts"
| "collect_texts bound description_parts (t # ts) =
     collect_texts bound
       (if t \<noteq> [] \<and> t \<notin> set description_parts \<and> length t > bound
        then description_parts @ [t] else description_parts)
       ts"

text \<open>The body of the loop over the containers: cases 1 to 4.\<close>

definition collect_container :: "string list \<Rightarrow> container \<Rightarrow> string list" where
  "collect_container description_parts c =
     (if container_text c = [] then description_parts
      else collect_texts 5
             (collect_texts 5
                (collect_texts 5
                   (collect_texts 10 description_parts (p_texts c))
                   (i_texts c))
                (li_texts c))
             (a_texts c))"

text \<open>Case 5: the direct children of the main division.\<close>

fun collect_children :: "string list \<Rightarrow> string option list \<Rightarrow> string list" where
  "collect_children description_parts [] = description_parts"
| "collect_children description_parts (child # children) =
     collect_children
       (case child of
          None \<Rightarrow> description_parts
        | Some s \<Rightarrow>
            if s \<noteq> [] \<and> strip s \<noteq> [] \<and> length (strip s) > 10 \<and>
               strip s \<notin> set description_parts
            then description_parts @ [strip s] else description_parts)
       children"

definition description_parts :: "soup \<Rightarrow> string list" where
  "description_parts sp =
     (let parts = foldl collect_container [] (containers sp)
      in case main_div sp of
           None \<Rightarrow> parts
         | Some children \<Rightarrow> collect_children parts children)"

text \<open>\<open>sub in s\<close> on strings.\<close>

fun contains :: "string \<Rightarrow> string \<Rightarrow> bool" where
  "contains sub [] = (sub = [])"
| "contains sub (c # cs) = (prefix sub (c # cs) \<or> contains sub cs)"

text \<open>\<open>s.split()\<close>: the maximal runs of characters that are not whitespace.\<close>

fun split_whitespace :: "string \<Rightarrow> string \<Rightarrow> string list" where
  "split_whitespace word [] = (if word = [] then [] else [word])"
| "split_whitespace word (c # cs) =
     (if is_space c then (if word = [] then [] else [word]) @ split_whitespace [] cs
      else split_whitespace (word @ [c]) cs)"

definition skip_phrases :: "string list" where
  "skip_phrases =
     [''open'', ''close'', ''menu'', ''navigation'', ''contact us'', ''get involved'',
      ''submit a request'', ''careers'', ''about us'', ''site feedback'', ''events'',
      ''disclaimer'', ''privacy policy'', ''accessibility policy'', ''your city hall'',
      ''strategic priorities'', ''city management'', ''departments'',
      ''council and commissions'', ''transparency'', ''get involved'',
      ''participating in government'', ''working at the city'']"

definition list_words :: "string list" where
  "list_words = [''services'', ''programs'', ''departments'']"

text \<open>The filtering loop, with its two \<open>continue\<close>.\<close>

fun filter_parts :: "string list \<Rightarrow> string list" where
  "filter_parts [] = []"
| "filter_parts (part # parts) =
     (if list_ex (\<lambda>skip. contains skip (lower part)) skip_phrases then filter_parts parts
      else if length (split_whitespace [] part) > 20 \<and>
              list_ex (\<lambda>word. contains word (lower part)) list_words
           then filter_parts parts
           else part # filter_parts parts)"

text \<open>\<open>sep.join(xs)\<close>.\<close>

fun join :: "string \<Rightarrow> string list \<Rightarrow> string" where
  "join sep [] = []"
| "join sep [x] = x"
| "join sep (x # y # ys) = x @ sep @ join sep (y # ys)"

definition extract_description :: "soup \<Rightarrow> string" where
  "extract_description sp =
     (let filtered_parts = filter_parts (description_parts sp)
      in if filtered_parts \<noteq> [] then join '' '' filtered_parts
         else ''No description found'')"

section \<open>The scraping loop\<close>

text \<open>
  The record that the handler of the loop over the event links appends when the body of
  its \<open>try\<close> raises.
\<close>

definition failed_event :: "string \<Rightarrow> event" where
  "failed_event event_url =
     [(''url'', event_url),
      (''title'', ''Failed to scrape title''),
      (''date'', ''Failed to scrape date''),
      (''time'', ''Failed to scrape time''),
      (''location'', ''Failed to scrape location''),
      (''location_link'', ''Failed to scrape location link''),
      (''description'', ''Failed to scrape description'')]"

text \<open>
  The loop over the event links.  The body of the \<open>try\<close>, the retrieval of the page of
  one link and the extraction of its fields, is the parameter \<open>scrape_page\<close>: it gives
  the record to append, or the exception that the body raises.
\<close>

fun scrape_loop :: "(string \<Rightarrow> error + event) \<Rightarrow> string list \<Rightarrow> event list \<Rightarrow> event list" where
  "scrape_loop scrape_page [] events_data = events_data"
| "scrape_loop scrape_page (event_url # event_links) events_data =
     scrape_loop scrape_page event_links
       (case scrape_page event_url of
          Inr event \<Rightarrow> events_data @ [event]
        | Inl e \<Rightarrow> events_data @ [failed_event event_url])"

section \<open>Well-formed inputs of the specification\<close>

text \<open>
  The texts the specification calls valid are written out from numbers, so that a
  statement can range over all of them: a decimal digit, a two-digit field, and the
  12-hour clock text \<open>H:MM AM\<close>, \<open>HH:MM PM\<close> with or without the leading zero of
  the hour.
\<close>

definition digit_char :: "nat \<Rightarrow> char" where
  "digit_char n = char_of (48 + n)"

definition two_digits :: "nat \<Rightarrow> string" where
  "two_digits n = [digit_char (n div 10), digit_char (n mod 10)]"

definition clock_text :: "bool \<Rightarrow> nat \<Rightarrow> nat \<Rightarrow> bool \<Rightarrow> string" where
  "clock_text padded h m pm =
     (if padded \<or> 10 \<le> h then two_digits h else [digit_char h]) @ '':'' @ two_digits m @
     '' '' @ (if pm then ''PM'' else ''AM'')"

definition hour24 :: "nat \<Rightarrow> bool \<Rightarrow> nat" where
  "hour24 h pm = h mod 12 + (if pm then 12 else 0)"

text \<open>
  The date texts of the specification, \<open>weekday, Mon D, YYYY\<close>: the abbreviated month
  name, the day with or without a leading zero, the year in four digits.
\<close>

definition four_digits :: "nat \<Rightarrow> string" where
  "four_digits n =
     [digit_char (n div 1000), digit_char (n div 100 mod 10), digit_char (n div 10 mod 10),
      digit_char (n mod 10)]"

definition day_text :: "bool \<Rightarrow> nat \<Rightarrow> string" where
  "day_text padded d = (if padded \<or> 10 \<le> d then two_digits d else [digit_char d])"

definition month_abbr :: "nat \<Rightarrow> string" where
  "month_abbr m =
     [''Jan'', ''Feb'', ''Mar'', ''Apr'', ''May'', ''Jun'',
      ''Jul'', ''Aug'', ''Sep'', ''Oct'', ''Nov'', ''Dec''] ! (m - 1)"

definition month_day_year :: "bool \<Rightarrow> nat \<Rightarrow> nat \<Rightarrow> nat \<Rightarrow> string" where
  "month_day_year padded y m d =
     month_abbr m @ '' '' @ day_text padded d @ '', '' @ four_digits y"

definition date_text :: "string \<Rightarrow> bool \<Rightarrow> nat \<Rightarrow> nat \<Rightarrow> nat \<Rightarrow> string" where
  "date_text wd padded y m d = wd @ '', '' @ month_day_year padded y m d"

text \<open>A calendar date: a year from 1 to 9999, a month, a day that the month has.\<close>

definition valid_date :: "nat \<Rightarrow> nat \<Rightarrow> nat \<Rightarrow> bool" where
  "valid_date y m d =
     (1 \<le> y \<and> y \<le> 9999 \<and> 1 \<le> m \<and> m \<le> 12 \<and> 1 \<le> d \<and>
      int d \<le> days_in_month (int y) (int m))"

text \<open>
  What the specification says of an event and a week: its date text parses to a date
  within the week, both ends included; and the pair it is sorted by.
\<close>

definition date_within :: "datetime \<Rightarrow> datetime \<Rightarrow> event \<Rightarrow> bool" where
  "date_within week_start week_end event =
     (case parse_date_part (dict_get event ''date'' ''No date found'') of
        Inr d \<Rightarrow> week_start \<le> d \<and> d \<le> week_end
      | Inl _ \<Rightarrow> False)"

definition date_time_key :: "event \<Rightarrow> datetime \<times> int" where
  "date_time_key event =
     (parse_date_for_sorting (dict_get event ''date'' ''No date found''),
      parse_time_to_minutes (dict_get event ''time'' []))"

text \<open>The two texts of an event that the organiser and the week filter read.\<close>

definition date_of :: "event \<Rightarrow> string" where
  "date_of event = dict_get event ''date'' ''No date found''"

definition minutes_of :: "event \<Rightarrow> int" where
  "minutes_of event = parse_time_to_minutes (dict_get event ''time'' [])"

text \<open>The events a dict of groups holds under a date text; none when the key is missing.\<close>

definition group_of :: "(string, event list) dict \<Rightarrow> string \<Rightarrow> event list" where
  "group_of d k = (case map_of d k of None \<Rightarrow> [] | Some es \<Rightarrow> es)"

text \<open>
  The description extractor in the words of the specification.  The candidates of a
  document are the texts that the five steps meet, in their order, each step with its
  bound on the length; a candidate is collected where it occurs first; a collected string
  is dropped when its lower-case form has a phrase of the denylist, and when it has more
  than 20 words and one of the three list words.
\<close>

definition container_candidates :: "container \<Rightarrow> string list" where
  "container_candidates c =
     (if container_text c = [] then []
      else filter (\<lambda>t. 10 < length t) (p_texts c) @ filter (\<lambda>t. 5 < length t) (i_texts c) @
           filter (\<lambda>t. 5 < length t) (li_texts c) @ filter (\<lambda>t. 5 < length t) (a_texts c))"

definition child_candidates :: "string option list \<Rightarrow> string list" where
  "child_candidates children =
     filter (\<lambda>t. 10 < length t)
       (concat (map (\<lambda>child. case child of None \<Rightarrow> [] | Some s \<Rightarrow> [strip s]) children))"

definition candidates :: "soup \<Rightarrow> string list" where
  "candidates sp =
     concat (map container_candidates (containers sp)) @
     (case main_div sp of None \<Rightarrow> [] | Some children \<Rightarrow> child_candidates children)"

definition first_occurrences :: "'a list \<Rightarrow> 'a list" where
  "first_occurrences xs = rev (remdups (rev xs))"

definition add_new :: "'a list \<Rightarrow> 'a \<Rightarrow> 'a list" where
  "add_new xs x = (if x \<in> set xs then xs else xs @ [x])"

definition has_skip_phrase :: "string \<Rightarrow> bool" where
  "has_skip_phrase part = (\<exists>skip \<in> set skip_phrases. contains skip (lower part))"

definition is_link_list :: "string \<Rightarrow> bool" where
  "is_link_list part =
     (20 < length (split_whitespace [] part) \<and>
      (\<exists>word \<in> set list_words. contains word (lower part)))"

section \<open>Evaluation\<close>

text \<open>
  The definitions grouped for the simplifier, which evaluates the model on a concrete
  input with them.
\<close>

lemma char_of_eq: "(char_of (n::nat) = c) = (n mod 256 = of_char c)"
proof -
  have "(char_of n = c) = ((of_char (char_of n) :: nat) = of_char c)"
    by (simp only: of_char_eq_iff)
  then show ?thesis by (simp only: of_char_of)
qed

lemma char_eq_of: "(c = char_of (n::nat)) = (n mod 256 = of_char c)"
  using char_of_eq [of n c] by (simp only: eq_commute [of c])

lemmas char_defs = is_space_def is_digit_def digit_val_def lower_char_def lower_def in_range_def
  char_of_eq char_eq_of

lemmas match_defs = re_chars_def re_lit_def re_I_def re_M_def re_p_def re_b_def re_d_def
  re_m_def re_Y_def month_names_def

lemmas time_defs = parse_time_to_minutes_def strptime_I_M_p_def match_I_M_p_def hour_of_def
  py_int_def strip_def

lemmas date_defs = parse_date_part_def index_def strptime_b_d_Y_def match_b_d_Y_def
  strptime_Y_m_d_def match_Y_m_d_def month_number_def mk_datetime_def ymd2ord_def
  days_before_year_def days_before_month_def days_in_month_def is_leap_def py_int_def strip_def
  parse_date_for_sorting_def datetime_max_def MAXORDINAL_def upt_rec

lemmas week_defs = filter_events_by_week_def week_bounds_def add_days_def weekday_def
  in_week_def sort_key_event_def dict_get_def day_mapping_def less_eq_prod_def

lemmas text_defs = digit_char_def two_digits_def four_digits_def day_text_def month_abbr_def
  month_day_year_def date_text_def clock_text_def hour24_def valid_date_def

lemmas description_defs = extract_description_def description_parts_def collect_container_def
  skip_phrases_def list_words_def strip_def

section \<open>The time parser: supporting lemmas\<close>

lemma of_char_digit_char: "n < 10 \<Longrightarrow> (of_char (digit_char n) :: nat) = 48 + n"
  by (simp add: digit_char_def)

lemma digit_char_eq_iff:
  "n < 10 \<Longrightarrow> (digit_char n = c) = (48 + n = (of_char c :: nat))"
  "n < 10 \<Longrightarrow> (c = digit_char n) = (48 + n = (of_char c :: nat))"
proof -
  assume n: "n < 10"
  have "(digit_char n = c) = ((of_char (digit_char n) :: nat) = of_char c)"
    by (simp only: of_char_eq_iff)
  then show "(digit_char n = c) = (48 + n = (of_char c :: nat))"
    by (simp only: of_char_digit_char [OF n])
  then show "(c = digit_char n) = (48 + n = (of_char c :: nat))"
    by (simp only: eq_commute [of c])
qed

lemma digit_char_props:
  "n < 10 \<Longrightarrow> is_digit (digit_char n)"
  "n < 10 \<Longrightarrow> \<not> is_space (digit_char n)"
  "n < 10 \<Longrightarrow> digit_val (digit_char n) = int n"
  "n < 10 \<Longrightarrow> lower_char (digit_char n) = digit_char n"
  "n < 10 \<Longrightarrow> in_range lo hi (digit_char n) = ((of_char lo :: nat) \<le> 48 + n \<and> 48 + n \<le> (of_char hi :: nat))"
  by (simp_all add: is_digit_def is_space_def digit_val_def lower_char_def in_range_def of_char_digit_char)

lemma lower_lits:
  "lower ''AM'' = ''am''" "lower ''PM'' = ''pm''" "lower ''am'' = ''am''" "lower ''pm'' = ''pm''"
  "lower '':'' = '':''"
  by (simp_all add: char_defs)

lemma re_M_two:
  "a < 6 \<Longrightarrow> b < 10 \<Longrightarrow>
   re_M (digit_char a # digit_char b # r) =
     [([digit_char a, digit_char b], r), ([digit_char a], digit_char b # r)]"
  by (simp add: re_M_def re_chars_def digit_char_props)

lemma re_spaces_digit: "b < 10 \<Longrightarrow> re_spaces (digit_char b # r) = []"
  by (simp add: digit_char_props)

lemma re_spaces_one: "\<not> is_space c \<Longrightarrow> re_spaces (CHR '' '' # c # r) = [c # r]"
  by (simp add: is_space_def)

lemma re_p_AM: "re_p (CHR ''A'' # CHR ''M'' # r) = [(''AM'', r)]"
  by (simp add: re_p_def re_lit_def re_chars_def lower_lits)

lemma re_p_PM: "re_p (CHR ''P'' # CHR ''M'' # r) = [(''PM'', r)]"
  by (simp add: re_p_def re_lit_def re_chars_def lower_lits)

lemma re_colon: "re_lit '':'' (CHR '':'' # r) = [('':'', r)]"
  by (simp add: re_lit_def re_chars_def lower_lits)

lemma re_colon_digit: "b < 10 \<Longrightarrow> re_lit '':'' (digit_char b # r) = []"
  apply (simp add: re_lit_def re_chars_def lower_lits)
  apply (simp add: lower_def digit_char_props digit_char_eq_iff)
  done

lemma re_I_one:
  "1 \<le> h \<Longrightarrow> h < 10 \<Longrightarrow> re_I (digit_char h # CHR '':'' # r) = [([digit_char h], CHR '':'' # r)]"
  by (simp add: re_I_def re_chars_def digit_char_props digit_char_eq_iff in_range_def of_char_digit_char)

lemma re_I_two_0:
  "1 \<le> h2 \<Longrightarrow> h2 < 10 \<Longrightarrow>
   re_I (digit_char 0 # digit_char h2 # r) = [([digit_char 0, digit_char h2], r)]"
  by (simp add: re_I_def re_chars_def digit_char_props digit_char_eq_iff in_range_def of_char_digit_char)

lemma re_I_two_1:
  "h2 \<le> 2 \<Longrightarrow>
   re_I (digit_char 1 # digit_char h2 # r) =
     [([digit_char 1, digit_char h2], r), ([digit_char 1], digit_char h2 # r)]"
  by (simp add: re_I_def re_chars_def digit_char_props digit_char_eq_iff in_range_def of_char_digit_char)


lemma re_spaces_letter:
  "re_spaces (CHR '' '' # CHR ''A'' # r) = [CHR ''A'' # r]"
  "re_spaces (CHR '' '' # CHR ''P'' # r) = [CHR ''P'' # r]"
  by (simp_all add: is_space_def)

lemma py_int_digits:
  "a < 10 \<Longrightarrow> py_int [digit_char a] = int a"
  "a < 10 \<Longrightarrow> b < 10 \<Longrightarrow> py_int [digit_char a, digit_char b] = int (10 * a + b)"
  by (simp_all add: py_int_def strip_def digit_char_props)

lemmas match_steps = re_I_one re_I_two_0 re_I_two_1 re_colon re_colon_digit re_M_two
  re_spaces_digit re_spaces_letter re_p_AM re_p_PM

lemma match_tail:
  assumes "a < 6" "b < 10"
  shows "do { (x, r2) \<leftarrow> re_lit '':'' (CHR '':'' # digit_char a # digit_char b # CHR '' '' # (if pm then ''PM'' else ''AM''));
              (M, r3) \<leftarrow> re_M r2;
              r4 \<leftarrow> re_spaces r3;
              (p, r5) \<leftarrow> re_p r4;
              [((I, M, p), r5)] } =
         [((I, [digit_char a, digit_char b], if pm then ''PM'' else ''AM''), [])]"
  using assms by (cases pm) (simp_all add: match_steps del: re_spaces.simps)

lemma match_one:
  assumes "1 \<le> h" "h < 10" "a < 6" "b < 10"
  shows "match_I_M_p (digit_char h # CHR '':'' # digit_char a # digit_char b # CHR '' '' # (if pm then ''PM'' else ''AM'')) =
         [(([digit_char h], [digit_char a, digit_char b], if pm then ''PM'' else ''AM''), [])]"
  unfolding match_I_M_p_def
  by (simp only: re_I_one [OF assms(1,2)] List.bind_simps prod.case match_tail [OF assms(3,4)] append_Nil2)


lemma match_two_0:
  assumes "1 \<le> h" "h < 10" "a < 6" "b < 10"
  shows "match_I_M_p (digit_char 0 # digit_char h # CHR '':'' # digit_char a # digit_char b # CHR '' '' # (if pm then ''PM'' else ''AM'')) =
         [(([digit_char 0, digit_char h], [digit_char a, digit_char b], if pm then ''PM'' else ''AM''), [])]"
  unfolding match_I_M_p_def
  by (simp only: re_I_two_0 [OF assms(1,2)] List.bind_simps prod.case match_tail [OF assms(3,4)] append_Nil2)

lemma match_two_1:
  assumes "h \<le> 2" "a < 6" "b < 10"
  shows "match_I_M_p (digit_char 1 # digit_char h # CHR '':'' # digit_char a # digit_char b # CHR '' '' # (if pm then ''PM'' else ''AM'')) =
         [(([digit_char 1, digit_char h], [digit_char a, digit_char b], if pm then ''PM'' else ''AM''), [])]"
proof -
  have h: "h < 10" using assms(1) by simp
  show ?thesis
    unfolding match_I_M_p_def
    by (simp only: re_I_two_1 [OF assms(1)] List.bind_simps prod.case match_tail [OF assms(2,3)]
        re_colon_digit [OF h] append_Nil2 append_Nil)
qed

lemma hour_of_clock:
  assumes "1 \<le> h" "h \<le> 12" "py_int I = int h"
  shows "hour_of I (if pm then ''PM'' else ''AM'') = int (hour24 h pm)"
proof (cases "h = 12")
  case True
  with assms show ?thesis by (simp add: hour_of_def hour24_def lower_lits)
next
  case False
  with assms have "h mod 12 = h" by simp
  with False assms show ?thesis by (simp add: hour_of_def hour24_def lower_lits)
qed

lemma strptime_clock:
  assumes "1 \<le> h" "h \<le> 12" "m < 60"
  shows "strptime_I_M_p (clock_text padded h m pm) = Inr (int (hour24 h pm), int m)"
proof -
  define a b where "a = m div 10" and "b = m mod 10"
  have ab: "a < 6" "b < 10" "a < 10" "10 * a + b = m" using assms(3) by (auto simp: a_def b_def)
  have M: "py_int [digit_char a, digit_char b] = int m"
    using py_int_digits(2) [OF ab(3) ab(2)] ab(4) by simp
  consider (one) "h < 10" "\<not> padded" | (zero) "h < 10" "padded" | (two) "10 \<le> h"
    by fastforce
  then show ?thesis
  proof cases
    case one
    have I: "py_int [digit_char h] = int h" using one(1) by (simp add: py_int_digits)
    have "clock_text padded h m pm =
      digit_char h # CHR '':'' # digit_char a # digit_char b # CHR '' '' # (if pm then ''PM'' else ''AM'')"
      using one by (simp add: clock_text_def two_digits_def a_def b_def)
    then show ?thesis
      using match_one [OF assms(1) one(1) ab(1,2), of pm] M hour_of_clock [OF assms(1,2) I, of pm]
      by (simp add: strptime_I_M_p_def)
  next
    case zero
    have I: "py_int [digit_char 0, digit_char h] = int h"
      using py_int_digits(2) [of 0 h] zero(1) by simp
    have "clock_text padded h m pm =
      digit_char 0 # digit_char h # CHR '':'' # digit_char a # digit_char b # CHR '' '' # (if pm then ''PM'' else ''AM'')"
      using zero by (simp add: clock_text_def two_digits_def a_def b_def)
    then show ?thesis
      using match_two_0 [OF assms(1) zero(1) ab(1,2), of pm] M hour_of_clock [OF assms(1,2) I, of pm]
      by (simp add: strptime_I_M_p_def)
  next
    case two
    define k where "k = h - 10"
    have k: "k \<le> 2" "h = 10 + k" "k < 10" using two assms(2) by (auto simp: k_def)
    have I: "py_int [digit_char 1, digit_char k] = int h"
      using py_int_digits(2) [of 1 k] k by simp
    have "clock_text padded h m pm =
      digit_char 1 # digit_char k # CHR '':'' # digit_char a # digit_char b # CHR '' '' # (if pm then ''PM'' else ''AM'')"
    proof -
      have "h div 10 = 1" "h mod 10 = k" using k by auto
      then show ?thesis using two by (simp add: clock_text_def two_digits_def a_def b_def)
    qed
    then show ?thesis
      using match_two_1 [OF k(1) ab(1,2), of pm] M hour_of_clock [OF assms(1,2) I, of pm]
      by (simp add: strptime_I_M_p_def)
  qed
qed

lemma strip_id:
  assumes "s \<noteq> []" "\<not> is_space (hd s)" "\<not> is_space (last s)"
  shows "strip s = s"
proof -
  have "dropWhile is_space s = s" using assms(1,2) by (cases s) auto
  moreover have "dropWhile is_space (rev s) = rev s"
    using assms(1,3) by (cases "rev s") (auto simp: hd_rev)
  ultimately show ?thesis by (simp add: strip_def)
qed

lemma split_no_dash:
  "CHR ''-'' \<notin> set a \<Longrightarrow> split '' - '' a = [a]"
  by (induction a) (auto simp: prefix_def)

lemma split_dash_append:
  "CHR ''-'' \<notin> set a \<Longrightarrow>
   split '' - '' (a @ CHR '' '' # CHR ''-'' # CHR '' '' # r) = a # split '' - '' r"
proof (induction a)
  case Nil
  show ?case by simp
next
  case (Cons c a)
  then have "\<not> prefix '' - '' (c # a @ CHR '' '' # CHR ''-'' # CHR '' '' # r)"
    by (cases a) auto
  with Cons show ?case by simp
qed

lemma strptime_sentinel: "strptime_I_M_p ''No time found'' = Inl ValueError"
  by (simp add: time_defs match_defs char_defs)

lemma strptime_empty: "strptime_I_M_p [] = Inl ValueError"
  by (simp add: time_defs match_defs char_defs)

lemma parse_time_start:
  assumes "\<not> is_space (hd t)" "\<not> is_space (last t)" "CHR ''-'' \<notin> set t"
    and "strptime_I_M_p t = Inr (hour, minute)"
  shows "parse_time_to_minutes t = hour * 60 + minute"
    and "parse_time_to_minutes (t @ '' - '' @ end_time) = hour * 60 + minute"
proof -
  have ne: "t \<noteq> []" "t \<noteq> ''No time found''"
    using assms(4) strptime_sentinel strptime_empty by auto
  have st: "strip t = t" using strip_id [OF ne(1) assms(1,2)] .
  show "parse_time_to_minutes t = hour * 60 + minute"
    using ne st assms(3,4) by (simp add: parse_time_to_minutes_def split_no_dash)
  have "t @ '' - '' @ end_time \<noteq> ''No time found''"
  proof
    assume eq: "t @ '' - '' @ end_time = ''No time found''"
    have "CHR ''-'' \<in> set (t @ '' - '' @ end_time)" by simp
    then have "CHR ''-'' \<in> set ''No time found''" unfolding eq .
    then show False by simp
  qed
  then show "parse_time_to_minutes (t @ '' - '' @ end_time) = hour * 60 + minute"
    using ne st assms(3,4) by (simp add: parse_time_to_minutes_def split_dash_append)
qed


lemma digit_char_lits:
  "digit_char 0 = CHR ''0''" "digit_char 1 = CHR ''1''" "digit_char 2 = CHR ''2''"
  "digit_char 3 = CHR ''3''" "digit_char 4 = CHR ''4''" "digit_char 5 = CHR ''5''"
  "digit_char 6 = CHR ''6''" "digit_char 7 = CHR ''7''" "digit_char 8 = CHR ''8''"
  "digit_char 9 = CHR ''9''"
  by (simp_all add: digit_char_def char_of_eq)

lemma clock_text_shape:
  assumes "1 \<le> h" "h \<le> 12" "m < 60"
  shows "\<not> is_space (hd (clock_text padded h m pm))"
    and "\<not> is_space (last (clock_text padded h m pm))"
    and "CHR ''-'' \<notin> set (clock_text padded h m pm)"
proof -
  have d: "h div 10 < 10" "h mod 10 < 10" "m div 10 < 10" "m mod 10 < 10"
    using assms by auto
  show "\<not> is_space (hd (clock_text padded h m pm))"
    using d assms by (cases "padded \<or> 10 \<le> h") (simp_all add: clock_text_def two_digits_def digit_char_props)
  show "\<not> is_space (last (clock_text padded h m pm))"
    by (simp add: clock_text_def is_space_def)
  show "CHR ''-'' \<notin> set (clock_text padded h m pm)"
    using d assms by (cases "padded \<or> 10 \<le> h") (simp_all add: clock_text_def two_digits_def digit_char_eq_iff)
qed

lemma split_not_Nil: "split sep s \<noteq> []"
  by (induction sep s rule: split.induct) (auto split: list.splits)

section \<open>Dates: supporting lemmas\<close>

lemma lower_months:
  "lower ''Jan'' = ''jan''" "lower ''Feb'' = ''feb''" "lower ''Mar'' = ''mar''"
  "lower ''Apr'' = ''apr''" "lower ''May'' = ''may''" "lower ''Jun'' = ''jun''"
  "lower ''Jul'' = ''jul''" "lower ''Aug'' = ''aug''" "lower ''Sep'' = ''sep''"
  "lower ''Oct'' = ''oct''" "lower ''Nov'' = ''nov''" "lower ''Dec'' = ''dec''"
  "lower ''jan'' = ''jan''" "lower ''feb'' = ''feb''" "lower ''mar'' = ''mar''"
  "lower ''apr'' = ''apr''" "lower ''may'' = ''may''" "lower ''jun'' = ''jun''"
  "lower ''jul'' = ''jul''" "lower ''aug'' = ''aug''" "lower ''sep'' = ''sep''"
  "lower ''oct'' = ''oct''" "lower ''nov'' = ''nov''" "lower ''dec'' = ''dec''"
  by (simp_all add: char_defs)

lemma month_cases:
  assumes "1 \<le> m" "m \<le> 12"
  obtains "m = 1" | "m = 2" | "m = 3" | "m = 4" | "m = 5" | "m = 6"
    | "m = 7" | "m = 8" | "m = 9" | "m = 10" | "m = 11" | "m = (12::nat)"
proof -
  have "m = 1 \<or> m = 2 \<or> m = 3 \<or> m = 4 \<or> m = 5 \<or> m = 6 \<or>
        m = 7 \<or> m = 8 \<or> m = 9 \<or> m = 10 \<or> m = 11 \<or> m = 12"
    using assms by arith
  then show thesis using that by blast
qed

lemma re_b_month:
  assumes "1 \<le> m" "m \<le> 12"
  shows "re_b (month_abbr m @ r) = [(month_abbr m, r)]"
  using assms
  by (rule month_cases)
    (simp_all add: month_abbr_def re_b_def month_names_def re_lit_def re_chars_def lower_months)

lemma month_number_abbr:
  assumes "1 \<le> m" "m \<le> 12"
  shows "month_number (month_abbr m) = Inr (int m)"
  using assms
  by (rule month_cases)
    (simp_all add: month_abbr_def month_number_def month_names_def lower_months upt_rec)


lemma is_space_blank: "is_space CHR '' ''"
  by (simp add: is_space_def)

lemma re_spaces_before_digit:
  "d < 10 \<Longrightarrow> re_spaces (CHR '' '' # digit_char d # r) = [digit_char d # r]"
  by (simp add: digit_char_props is_space_blank)

lemma re_comma: "re_lit '','' (CHR '','' # r) = [('','', r)]"
  by (simp add: re_lit_def re_chars_def lower_def lower_char_def)

lemma re_comma_digit: "b < 10 \<Longrightarrow> re_lit '','' (digit_char b # r) = []"
  by (simp add: re_lit_def re_chars_def lower_def lower_char_def of_char_digit_char digit_char_eq_iff)

lemma re_d_one:
  "1 \<le> d \<Longrightarrow> d < 10 \<Longrightarrow>
   re_d (digit_char d # CHR '','' # r) = [([digit_char d], CHR '','' # r)]"
  by (simp add: re_d_def re_chars_def digit_char_eq_iff in_range_def is_digit_def of_char_digit_char)

lemma re_d_two:
  assumes "a < 10" "b < 10" "1 \<le> 10 * a + b" "10 * a + b \<le> 31"
  shows "re_d (digit_char a # digit_char b # r) =
           ([digit_char a, digit_char b], r) #
           (if 1 \<le> a then [([digit_char a], digit_char b # r)] else [])"
proof -
  consider "a = 0" "1 \<le> b" | "a = 1" | "a = 2" | "a = 3" "b \<le> 1"
    using assms by arith
  then show ?thesis
    using assms(2)
    by cases (simp_all add: re_d_def re_chars_def digit_char_eq_iff in_range_def is_digit_def of_char_digit_char)
qed

lemma re_Y_four:
  "a < 10 \<Longrightarrow> b < 10 \<Longrightarrow> c < 10 \<Longrightarrow> d < 10 \<Longrightarrow>
   re_Y [digit_char a, digit_char b, digit_char c, digit_char d] =
     [([digit_char a, digit_char b, digit_char c, digit_char d], [])]"
  by (simp add: re_Y_def re_chars_def digit_char_props)

lemma py_int_four:
  "a < 10 \<Longrightarrow> b < 10 \<Longrightarrow> c < 10 \<Longrightarrow> d < 10 \<Longrightarrow>
   py_int [digit_char a, digit_char b, digit_char c, digit_char d] =
     int (1000 * a + 100 * b + 10 * c + d)"
  by (simp add: py_int_def strip_def digit_char_props)

lemma digits_sum:
  "1000 * (y div 1000) + 100 * (y div 100 mod 10) + 10 * (y div 10 mod 10) + y mod 10 = (y::nat)"
proof -
  have e1: "10 * (y div 10) + y mod 10 = y" by (rule mult_div_mod_eq)
  have e2: "10 * (y div 10 div 10) + y div 10 mod 10 = y div 10" by (rule mult_div_mod_eq)
  have e3: "10 * (y div 10 div 10 div 10) + y div 10 div 10 mod 10 = y div 10 div 10"
    by (rule mult_div_mod_eq)
  have q: "y div 100 = y div 10 div 10" "y div 1000 = y div 10 div 10 div 10"
    by (simp_all add: div_mult2_eq)
  show ?thesis unfolding q using e1 e2 e3 by linarith
qed

lemma four_digits_value:
  assumes "y \<le> 9999"
  shows "re_Y (four_digits y) = [(four_digits y, [])]" and "py_int (four_digits y) = int y"
    and "CHR '','' \<notin> set (four_digits y)"
proof -
  have "y div 1000 < 10" using assms by arith
  then have d: "y div 1000 < 10" "y div 100 mod 10 < 10" "y div 10 mod 10 < 10" "y mod 10 < 10"
    by simp_all
  show "re_Y (four_digits y) = [(four_digits y, [])]"
    unfolding four_digits_def by (rule re_Y_four [OF d])
  show "py_int (four_digits y) = int y"
    unfolding four_digits_def py_int_four [OF d] digits_sum ..
  show "CHR '','' \<notin> set (four_digits y)"
    using d by (simp add: four_digits_def digit_char_eq_iff)
qed

lemma day_text_value:
  assumes "1 \<le> d" "d \<le> 31"
  shows "re_d (day_text padded d @ CHR '','' # r) \<bind> (\<lambda>(t, r3). re_lit '','' r3 \<bind> (\<lambda>(x, r4). f t r4)) =
           f (day_text padded d) r"
    and "py_int (day_text padded d) = int d"
    and "CHR '','' \<notin> set (day_text padded d)"
    and "\<exists>k rest. k < 10 \<and> day_text padded d = digit_char k # rest"
proof -
  define a b where "a = d div 10" and "b = d mod 10"
  have ab: "a < 10" "b < 10" "1 \<le> 10 * a + b" "10 * a + b \<le> 31" "10 * a + b = d"
    using assms by (auto simp: a_def b_def)
  show "re_d (day_text padded d @ CHR '','' # r) \<bind> (\<lambda>(t, r3). re_lit '','' r3 \<bind> (\<lambda>(x, r4). f t r4)) =
           f (day_text padded d) r"
  proof (cases "padded \<or> 10 \<le> d")
    case True
    then have "day_text padded d = [digit_char a, digit_char b]"
      by (simp add: day_text_def two_digits_def a_def b_def)
    then show ?thesis
      using ab(2) by (simp add: re_d_two [OF ab(1-4)] re_comma re_comma_digit)
  next
    case False
    then have "day_text padded d = [digit_char d]" "d < 10"
      by (simp_all add: day_text_def)
    then show ?thesis
      using assms(1) by (simp add: re_d_one re_comma)
  qed
  show "py_int (day_text padded d) = int d"
    using ab assms by (auto simp: day_text_def two_digits_def py_int_digits a_def b_def)
  show "CHR '','' \<notin> set (day_text padded d)"
    using ab(1,2) assms by (auto simp: day_text_def two_digits_def digit_char_eq_iff a_def b_def)
  show "\<exists>k rest. k < 10 \<and> day_text padded d = digit_char k # rest"
  proof (cases "padded \<or> 10 \<le> d")
    case True
    then have "day_text padded d = digit_char a # [digit_char b]"
      by (simp add: day_text_def two_digits_def a_def b_def)
    with ab(1) show ?thesis by blast
  next
    case False
    then have "day_text padded d = digit_char d # []" "d < 10"
      by (simp_all add: day_text_def)
    then show ?thesis by blast
  qed
qed

lemma days_in_month_le: "1 \<le> m \<Longrightarrow> m \<le> 12 \<Longrightarrow> days_in_month y (int m) \<le> 31"
  by (erule (1) month_cases) (simp_all add: days_in_month_def)

lemma four_digits_hd: "y \<le> 9999 \<Longrightarrow> \<exists>k rest. k < 10 \<and> four_digits y = digit_char k # rest"
proof -
  assume "y \<le> 9999"
  then have "y div 1000 < 10" by arith
  then show ?thesis unfolding four_digits_def by blast
qed

lemma match_month_day_year:
  assumes "valid_date y m d"
  shows "match_b_d_Y (month_day_year padded y m d) =
           [((month_abbr m, day_text padded d, four_digits y), [])]"
proof -
  have v: "1 \<le> m" "m \<le> 12" "1 \<le> d" "y \<le> 9999"
    using assms by (simp_all add: valid_date_def)
  have "int d \<le> 31" using assms days_in_month_le [OF v(1,2), of "int y"]
    by (simp add: valid_date_def)
  then have d31: "d \<le> 31" by simp
  obtain k rest where k: "k < 10" "day_text padded d = digit_char k # rest"
    using day_text_value(4) [OF v(3) d31] by blast
  obtain j rest' where j: "j < 10" "four_digits y = digit_char j # rest'"
    using four_digits_hd [OF v(4)] by blast
  have sp1: "re_spaces (CHR '' '' # day_text padded d @ CHR '','' # CHR '' '' # four_digits y) =
         [day_text padded d @ CHR '','' # CHR '' '' # four_digits y]"
    using re_spaces_before_digit [OF k(1)] by (simp add: k(2))
  have sp2: "re_spaces (CHR '' '' # four_digits y) = [four_digits y]"
    using re_spaces_before_digit [OF j(1)] by (simp add: j(2))
  show ?thesis
    unfolding match_b_d_Y_def month_day_year_def
    by (simp add: re_b_month [OF v(1,2)] sp1 sp2 day_text_value(1) [OF v(3) d31]
        four_digits_value(1) [OF v(4)] del: re_spaces.simps)
qed

lemma strptime_month_day_year:
  assumes "valid_date y m d"
  shows "strptime_b_d_Y (month_day_year padded y m d) = Inr (ymd2ord (int y) (int m) (int d), 0)"
proof -
  have v: "1 \<le> m" "m \<le> 12" "1 \<le> d" "y \<le> 9999" "1 \<le> y"
    "int d \<le> days_in_month (int y) (int m)"
    using assms by (simp_all add: valid_date_def)
  have "int d \<le> 31" using v(6) days_in_month_le [OF v(1,2), of "int y"] by simp
  then have d31: "d \<le> 31" by simp
  show ?thesis
    using v
    by (simp add: strptime_b_d_Y_def match_month_day_year [OF assms] month_number_abbr [OF v(1,2)]
        four_digits_value(2) [OF v(4)] day_text_value(2) [OF v(3) d31] mk_datetime_def)
qed

lemma days_before_year_bounds:
  assumes "1 \<le> y" "y \<le> 9998"
  shows "0 \<le> days_before_year y" "days_before_year y + 366 \<le> MAXORDINAL"
proof -
  have c: "(y - 1) div 400 \<le> (y - 1) div 100"
    using assms(1) by (intro zdiv_mono2) simp_all
  have "(y - 1) div 4 \<le> 9997 div 4"
    using assms(2) by (intro zdiv_mono1) simp_all
  then have a: "(y - 1) div 4 \<le> 2499" by simp
  have b: "(y - 1) div 100 \<le> (y - 1) div 4"
    using assms(1) by (intro zdiv_mono2) simp_all
  have p: "0 \<le> (y - 1) div 400" using assms(1) by simp
  have lo: "0 \<le> (y - 1) * 365" using assms(1) by simp
  have hi: "(y - 1) * 365 \<le> 9997 * 365" using assms(2) by simp
  show "0 \<le> days_before_year y"
    unfolding days_before_year_def using lo b p by linarith
  show "days_before_year y + 366 \<le> MAXORDINAL"
    unfolding days_before_year_def MAXORDINAL_def using hi a c by linarith
qed

lemma days_before_month_bound:
  assumes "1 \<le> m" "m \<le> 12" "d \<le> days_in_month y (int m)"
  shows "days_before_month y (int m) + d \<le> (if is_leap y then 366 else 365)"
    and "0 \<le> days_before_month y (int m)"
proof -
  show "days_before_month y (int m) + d \<le> (if is_leap y then 366 else 365)"
    by (rule month_cases [OF assms(1,2)])
      (use assms(3) in \<open>auto simp: days_before_month_def days_in_month_def split: if_splits\<close>)
  show "0 \<le> days_before_month y (int m)"
    by (rule month_cases [OF assms(1,2)]) (simp_all add: days_before_month_def)
qed

lemma ymd2ord_bounds:
  assumes "1 \<le> y" "y \<le> 9999" "1 \<le> m" "m \<le> 12" "1 \<le> d" "d \<le> days_in_month y (int m)"
  shows "1 \<le> ymd2ord y (int m) d" "ymd2ord y (int m) d \<le> MAXORDINAL"
proof -
  note dm = days_before_month_bound [OF assms(3,4,6)]
  show "1 \<le> ymd2ord y (int m) d"
  proof (cases "y = 9999")
    case True
    then show ?thesis using dm(2) assms(5) by (simp add: ymd2ord_def days_before_year_def)
  next
    case False
    then show ?thesis
      using days_before_year_bounds(1) [of y] assms(1,2,5) dm(2) by (simp add: ymd2ord_def)
  qed
  show "ymd2ord y (int m) d \<le> MAXORDINAL"
  proof (cases "y = 9999")
    case True
    then have "\<not> is_leap y" by (simp add: is_leap_def)
    then show ?thesis
      using dm(1) True by (simp add: ymd2ord_def days_before_year_def MAXORDINAL_def)
  next
    case False
    have "days_before_month y (int m) + d \<le> 366" using dm(1) by (simp split: if_splits)
    then show ?thesis
      using days_before_year_bounds(2) [of y] assms(1,2) False by (simp add: ymd2ord_def)
  qed
qed

lemma split_no_comma: "CHR '','' \<notin> set a \<Longrightarrow> split '', '' a = [a]"
  by (induction a) (auto simp: prefix_def)

lemma split_comma_append:
  "CHR '','' \<notin> set a \<Longrightarrow> split '', '' (a @ CHR '','' # CHR '' '' # r) = a # split '', '' r"
  by (induction a) auto

lemma month_abbr_no_comma: "1 \<le> m \<Longrightarrow> m \<le> 12 \<Longrightarrow> CHR '','' \<notin> set (month_abbr m)"
  by (erule (1) month_cases) (simp_all add: month_abbr_def)

lemma split_date_text:
  assumes "CHR '','' \<notin> set wd" "valid_date y m d"
  shows "split '', '' (date_text wd padded y m d) =
           [wd, month_abbr m @ '' '' @ day_text padded d, four_digits y]"
proof -
  have v: "1 \<le> m" "m \<le> 12" "1 \<le> d" "y \<le> 9999"
    using assms(2) by (simp_all add: valid_date_def)
  have "int d \<le> 31" using assms(2) days_in_month_le [OF v(1,2), of "int y"]
    by (simp add: valid_date_def)
  then have d31: "d \<le> 31" by simp
  have md: "CHR '','' \<notin> set (month_abbr m @ '' '' @ day_text padded d)"
    using month_abbr_no_comma [OF v(1,2)] day_text_value(3) [OF v(3) d31] by simp
  have "date_text wd padded y m d =
          wd @ CHR '','' # CHR '' '' # ((month_abbr m @ '' '' @ day_text padded d) @
            CHR '','' # CHR '' '' # four_digits y)"
    by (simp add: date_text_def month_day_year_def)
  then show ?thesis
    by (simp only: split_comma_append [OF assms(1)] split_comma_append [OF md]
        split_no_comma [OF four_digits_value(3) [OF v(4)]])
qed

lemma parse_date_part_date_text:
  assumes "CHR '','' \<notin> set wd" "valid_date y m d"
  shows "parse_date_part (date_text wd padded y m d) =
           Inr (ymd2ord (int y) (int m) (int d), 0)"
  using strptime_month_day_year [OF assms(2), of padded]
  by (simp add: parse_date_part_def split_date_text [OF assms] index_def month_day_year_def)

lemma month_number_range:
  assumes "month_number b = Inr n"
  shows "\<exists>m. n = int m \<and> 1 \<le> m \<and> m \<le> 12"
proof -
  from assms obtain k where k: "map_of (zip month_names [1 ..< 13]) (lower b) = Some k" "n = int k"
    by (auto simp: month_number_def split: option.splits)
  from k(1) have "k \<in> set [1 ..< 13]"
    by (meson map_of_SomeD set_zip_rightD)
  with k(2) show ?thesis by auto
qed

lemma mk_datetime_range:
  assumes "mk_datetime y (int m) d = Inr dt" "1 \<le> m" "m \<le> 12"
  shows "1 \<le> fst dt" "fst dt \<le> MAXORDINAL" "snd dt = 0"
  using assms ymd2ord_bounds [of y m d]
  by (auto simp: mk_datetime_def split: if_splits)

lemma strptime_b_d_Y_range:
  assumes "strptime_b_d_Y s = Inr dt"
  shows "1 \<le> fst dt \<and> fst dt \<le> MAXORDINAL \<and> snd dt = 0"
proof -
  from assms obtain b d Y n where "month_number b = Inr n" "mk_datetime (py_int Y) n (py_int d) = Inr dt"
    by (auto simp: strptime_b_d_Y_def split: list.splits if_splits sum.splits)
  then show ?thesis
    using month_number_range [of b n] mk_datetime_range [of "py_int Y" _ "py_int d" dt] by auto
qed

lemma parse_date_part_range:
  assumes "parse_date_part s = Inr dt"
  shows "1 \<le> fst dt" "fst dt \<le> MAXORDINAL" "snd dt = 0" "dt < datetime_max"
proof -
  from assms obtain t where "strptime_b_d_Y t = Inr dt"
    by (auto simp: parse_date_part_def split: sum.splits)
  from strptime_b_d_Y_range [OF this]
  show "1 \<le> fst dt" "fst dt \<le> MAXORDINAL" "snd dt = 0" "dt < datetime_max"
    by (auto simp: datetime_max_def less_prod_def)
qed

lemma parse_date_part_sentinel: "parse_date_part ''No date found'' = Inl IndexError"
  by (simp add: date_defs)

section \<open>The week filter: supporting lemmas\<close>

lemma mk_datetime_midnight: "mk_datetime y m d = Inr dt \<Longrightarrow> snd dt = 0"
  by (auto simp: mk_datetime_def split: if_splits)

lemma strptime_Y_m_d_midnight: "strptime_Y_m_d s = Inr dt \<Longrightarrow> snd dt = 0"
  by (auto simp: strptime_Y_m_d_def mk_datetime_midnight split: list.splits if_splits)

lemma day_mapping_range:
  "week_start_day \<in> set (map fst day_mapping) \<Longrightarrow>
   0 \<le> dict_get day_mapping week_start_day 0 \<and> dict_get day_mapping week_start_day 0 \<le> 6"
  by (auto simp: day_mapping_def dict_get_def)

lemma day_mapping_default:
  "week_start_day \<notin> set (map fst day_mapping) \<Longrightarrow> dict_get day_mapping week_start_day 0 = 0"
  by (simp add: dict_get_def map_of_eq_None_iff [THEN iffD2])

lemma week_start_weekday:
  assumes "0 \<le> n" "n \<le> 6"
  shows "(a - (a mod 7 - n) mod 7) mod 7 = (n::int)"
proof -
  have "(a - (a mod 7 - n) mod 7) mod 7 = (a - (a mod 7 - n)) mod 7"
    by (rule mod_diff_right_eq)
  also have "a - (a mod 7 - n) = 7 * (a div 7) + n"
    using mult_div_mod_eq [of 7 a] by linarith
  also have "(7 * (a div 7) + n) mod 7 = n mod 7" by simp
  also have "n mod 7 = n" using assms by simp
  finally show ?thesis .
qed

lemma week_bounds_in_range:
  assumes "days = (weekday target_date - n) mod 7"
    and "0 < fst target_date - days" "fst target_date - days + 6 \<le> MAXORDINAL"
  shows "week_bounds target_date n =
           Inr ((fst target_date - days, snd target_date),
                (fst target_date - days + 6, snd target_date))"
proof -
  have "0 \<le> days" "days \<le> 6" using assms(1) by simp_all
  then show ?thesis
    using assms by (simp add: week_bounds_def add_days_def Let_def)
qed

lemma week_bounds_Inr:
  assumes "week_bounds target_date n = Inr (week_start, week_end)"
  shows "week_start = (fst target_date - (weekday target_date - n) mod 7, snd target_date)"
    and "week_end = (fst week_start + 6, snd target_date)"
  using assms
  by (auto simp: week_bounds_def add_days_def Let_def split: if_splits)

lemma week_example:
  "filter_events_by_week
     [[(''title'', ''a''), (''date'', ''Monday, Aug 4, 2025''), (''time'', ''2:00 PM'')],
      [(''title'', ''b''), (''date'', ''Sunday, Aug 3, 2025''), (''time'', ''2:00 PM'')]]
     ''2025-08-04'' ''Monday'' =
   Inr [[(''title'', ''a''), (''date'', ''Monday, Aug 4, 2025''), (''time'', ''2:00 PM'')]]"
  by (simp add: week_defs date_defs time_defs match_defs char_defs)

lemma in_week_date_within: "in_week week_start week_end event = date_within week_start week_end event"
  by (simp add: in_week_def date_within_def Let_def parse_date_part_sentinel)

lemma sort_key_event_parsed:
  assumes "parse_date_part (dict_get event ''date'' ''No date found'') = Inr d"
  shows "sort_key_event event = (d, parse_time_to_minutes (dict_get event ''time'' []))"
    and "date_time_key event = (d, parse_time_to_minutes (dict_get event ''time'' []))"
    and "dict_get event ''date'' ''No date found'' \<noteq> ''No date found''"
proof -
  show ne: "dict_get event ''date'' ''No date found'' \<noteq> ''No date found''"
    using assms parse_date_part_sentinel by auto
  show "sort_key_event event = (d, parse_time_to_minutes (dict_get event ''time'' []))"
    using assms ne by (simp add: sort_key_event_def Let_def)
  show "date_time_key event = (d, parse_time_to_minutes (dict_get event ''time'' []))"
    using assms by (simp add: date_time_key_def parse_date_for_sorting_def)
qed

lemma date_within_key:
  assumes "date_within week_start week_end event"
  shows "sort_key_event event = date_time_key event"
proof -
  from assms obtain d where "parse_date_part (dict_get event ''date'' ''No date found'') = Inr d"
    by (auto simp: date_within_def split: sum.splits)
  then show ?thesis by (simp add: sort_key_event_parsed)
qed

section \<open>The organiser: supporting lemmas\<close>

lemma append_to_date_keys:
  "map fst (append_to_date d k e) = (if k \<in> set (map fst d) then map fst d else map fst d @ [k])"
  by (induction d k e rule: append_to_date.induct) auto

lemma append_to_date_group:
  "group_of (append_to_date d k e) k' =
     (if k' = k then group_of d k @ [e] else group_of d k')"
  by (induction d k e rule: append_to_date.induct) (auto simp: group_of_def)

lemma append_to_date_distinct:
  "distinct (map fst d) \<Longrightarrow> distinct (map fst (append_to_date d k e))"
  by (simp add: append_to_date_keys)

lemma group_fold:
  "group_of (foldl (\<lambda>d event. append_to_date d (date_of event) event) acc evs) k =
     group_of acc k @ filter (\<lambda>e. date_of e = k) evs"
  by (induction evs arbitrary: acc) (auto simp: append_to_date_group)

lemma append_to_date_key_set:
  "fst ` set (append_to_date d k e) = insert k (fst ` set d)"
  using arg_cong [OF append_to_date_keys [of d k e], of set] by (auto split: if_splits)

lemma keys_fold:
  "fst ` set (foldl (\<lambda>d event. append_to_date d (date_of event) event) acc evs) =
     fst ` set acc \<union> date_of ` set evs"
  by (induction evs arbitrary: acc) (simp_all add: append_to_date_key_set)

lemma distinct_fold:
  "distinct (map fst acc) \<Longrightarrow>
   distinct (map fst (foldl (\<lambda>d event. append_to_date d (date_of event) event) acc evs))"
  by (induction evs arbitrary: acc) (auto simp: append_to_date_distinct)

lemma dict_set_new: "k \<notin> set (map fst d) \<Longrightarrow> dict_set d k v = d @ [(k, v)]"
  by (induction d k v rule: dict_set.induct) auto

lemma final_loop_map:
  assumes "distinct dates" "set dates \<subseteq> set (map fst organized)"
    "set (map fst acc) \<inter> set dates = {}"
  shows "final_loop organized dates acc =
           Inr (acc @ map (\<lambda>k. (k, group_of organized k)) dates)"
  using assms
proof (induction dates arbitrary: acc)
  case Nil
  then show ?case by simp
next
  case (Cons k dates)
  from Cons.prems(2) obtain es where es: "map_of organized k = Some es"
    by (cases "map_of organized k") (auto simp: map_of_eq_None_iff)
  have new: "k \<notin> set (map fst acc)" using Cons.prems(3) by auto
  have "final_loop organized dates (acc @ [(k, es)]) =
          Inr ((acc @ [(k, es)]) @ map (\<lambda>k. (k, group_of organized k)) dates)"
    using Cons.prems by (intro Cons.IH) auto
  then show ?case
    using es new by (simp add: dict_item_def dict_set_new group_of_def)
qed


lemma organize_events_by_date_eq:
  "\<exists>dates. organize_events_by_date events_data =
             Inr (map (\<lambda>k. (k, sort_key minutes_of (filter (\<lambda>e. date_of e = k) events_data))) dates) \<and>
           distinct dates \<and> set dates = date_of ` set events_data \<and>
           sorted (map parse_date_for_sorting dates)"
proof -
  define events_by_date where
    "events_by_date = foldl (\<lambda>d event. append_to_date d (date_of event) event) [] events_data"
  define organized_events where
    "organized_events = map (\<lambda>(date, es). (date, sort_key minutes_of es)) events_by_date"
  define dates where "dates = sort_key parse_date_for_sorting (map fst organized_events)"
  have keys: "map fst organized_events = map fst events_by_date"
    by (simp add: organized_events_def case_prod_unfold comp_def)
  have dist: "distinct (map fst events_by_date)"
    unfolding events_by_date_def by (rule distinct_fold) simp
  have kset: "set (map fst events_by_date) = date_of ` set events_data"
    using keys_fold [of "[]" events_data] by (simp add: events_by_date_def)
  have grp: "group_of organized_events k =
               sort_key minutes_of (filter (\<lambda>e. date_of e = k) events_data)"
    if "k \<in> set dates" for k
  proof -
    from that kset keys have "k \<in> set (map fst events_by_date)" by (simp add: dates_def)
    then obtain es where es: "map_of events_by_date k = Some es"
      by (cases "map_of events_by_date k") (auto simp: map_of_eq_None_iff)
    then have "group_of events_by_date k = es" by (simp add: group_of_def)
    then have "es = filter (\<lambda>e. date_of e = k) events_data"
      using group_fold [of "[]" events_data k] by (simp add: events_by_date_def group_of_def)
    moreover have "map_of organized_events k = Some (sort_key minutes_of es)"
      using es by (simp add: organized_events_def map_of_map)
    ultimately show ?thesis by (simp add: group_of_def)
  qed
  have "final_loop organized_events dates [] =
          Inr ([] @ map (\<lambda>k. (k, group_of organized_events k)) dates)"
    using dist keys by (intro final_loop_map) (simp_all add: dates_def)
  also have "map (\<lambda>k. (k, group_of organized_events k)) dates =
      map (\<lambda>k. (k, sort_key minutes_of (filter (\<lambda>e. date_of e = k) events_data))) dates"
    using grp by (intro map_cong) simp_all
  finally have "organize_events_by_date events_data =
      Inr (map (\<lambda>k. (k, sort_key minutes_of (filter (\<lambda>e. date_of e = k) events_data))) dates)"
    by (simp add: organize_events_by_date_def Let_def events_by_date_def organized_events_def
        dates_def date_of_def [abs_def] minutes_of_def [abs_def])
  moreover have "distinct dates" using dist keys by (simp add: dates_def)
  moreover have "set dates = date_of ` set events_data" using kset keys by (simp add: dates_def)
  moreover have "sorted (map parse_date_for_sorting dates)"
    unfolding dates_def by (rule sorted_sort_key)
  ultimately show ?thesis by blast
qed

lemmas organize_defs = organize_events_by_date_def dict_item_def dict_get_def less_eq_prod_def
  date_of_def minutes_of_def

lemma organize_example:
  "organize_events_by_date
     [[(''title'', ''a''), (''date'', ''Monday, Aug 4, 2025''), (''time'', ''2:00 PM'')],
      [(''title'', ''b''), (''date'', ''Mon, Aug 4, 2025''), (''time'', ''9:00 AM'')]] =
   Inr [(''Monday, Aug 4, 2025'',
           [[(''title'', ''a''), (''date'', ''Monday, Aug 4, 2025''), (''time'', ''2:00 PM'')]]),
        (''Mon, Aug 4, 2025'',
           [[(''title'', ''b''), (''date'', ''Mon, Aug 4, 2025''), (''time'', ''9:00 AM'')]])]"
  by (simp add: organize_defs date_defs time_defs match_defs char_defs)

section \<open>The description extractor: supporting lemmas\<close>

lemma collect_texts_distinct:
  "distinct parts \<Longrightarrow> distinct (collect_texts bound parts ts)"
  by (induction bound parts ts rule: collect_texts.induct) auto

lemma collect_container_distinct:
  "distinct parts \<Longrightarrow> distinct (collect_container parts c)"
  by (simp add: collect_container_def collect_texts_distinct)

lemma collect_children_distinct:
  "distinct parts \<Longrightarrow> distinct (collect_children parts children)"
  by (induction parts children rule: collect_children.induct) (auto split: option.splits)

lemma foldl_collect_container_distinct:
  "distinct parts \<Longrightarrow> distinct (foldl collect_container parts cs)"
  by (induction cs arbitrary: parts) (auto simp: collect_container_distinct)

lemma description_parts_distinct: "distinct (description_parts sp)"
  by (auto simp: description_parts_def Let_def foldl_collect_container_distinct
      collect_children_distinct split: option.splits)

lemma filter_parts_subseq: "subseq (filter_parts parts) parts"
  by (induction parts) auto

lemma filter_parts_subset: "set (filter_parts parts) \<subseteq> set parts"
  by (induction parts) auto

lemma filter_parts_distinct: "distinct parts \<Longrightarrow> distinct (filter_parts parts)"
  using filter_parts_subset by (induction parts) auto

lemma filter_parts_no_skip:
  "skip \<in> set skip_phrases \<Longrightarrow> contains skip (lower part) \<Longrightarrow> part \<notin> set (filter_parts parts)"
  by (induction parts) (auto simp: list_ex_iff)

lemma description_example_duplicate:
  "extract_description
     \<lparr>containers =
        [\<lparr>container_text = ''Story time for children.'', p_texts = [''Story time for children.''],
          i_texts = [], li_texts = [], a_texts = []\<rparr>,
         \<lparr>container_text = ''Story time for children. Bring a blanket'',
          p_texts = [''Story time for children.''], i_texts = [], li_texts = [''Bring a blanket''],
          a_texts = []\<rparr>],
      main_div = Some [None, Some ''  Story time for children.  '']\<rparr> =
   ''Story time for children. Bring a blanket''"
  by (simp add: description_defs char_defs)

lemma description_example_contact:
  "extract_description
     \<lparr>containers =
        [\<lparr>container_text = ''x'',
          p_texts = [''Please Contact Us for details'', ''Story time for children.''],
          i_texts = [], li_texts = [], a_texts = []\<rparr>],
      main_div = None\<rparr> =
   ''Story time for children.''"
  by (simp add: description_defs char_defs)

lemma collect_texts_add_new:
  "collect_texts bound parts ts = foldl add_new parts (filter (\<lambda>t. bound < length t) ts)"
  by (induction bound parts ts rule: collect_texts.induct) (auto simp: add_new_def)

lemma strip_Nil: "strip [] = []"
  by (simp add: strip_def)

lemma collect_children_add_new:
  "collect_children parts children = foldl add_new parts (child_candidates children)"
proof (induction parts children rule: collect_children.induct)
  case (1 parts)
  then show ?case by (simp add: child_candidates_def)
next
  case (2 parts child children)
  show ?case
  proof (cases child)
    case None
    with 2 show ?thesis by (simp add: child_candidates_def)
  next
    case (Some s)
    have ne: "s \<noteq> []" "strip s \<noteq> []" if "10 < length (strip s)"
      using that strip_Nil by auto
    show ?thesis
      using 2 Some ne by (auto simp: child_candidates_def add_new_def)
  qed
qed

lemma collect_container_add_new:
  "collect_container parts c = foldl add_new parts (container_candidates c)"
  by (simp add: collect_container_def container_candidates_def collect_texts_add_new)

lemma foldl_collect_container_add_new:
  "foldl collect_container parts cs =
     foldl add_new parts (concat (map container_candidates cs))"
  by (induction cs arbitrary: parts) (simp_all add: collect_container_add_new)

lemma first_occurrences_snoc:
  "first_occurrences (xs @ [x]) = add_new (first_occurrences xs) x"
  by (simp add: first_occurrences_def add_new_def)

lemma foldl_add_new: "foldl add_new [] xs = first_occurrences xs"
proof (induction xs rule: rev_induct)
  case Nil
  show ?case by (simp add: first_occurrences_def)
next
  case (snoc x xs)
  then show ?case by (simp only: foldl_append foldl.simps first_occurrences_snoc)
qed

lemma description_parts_first_occurrences:
  "description_parts sp = first_occurrences (candidates sp)"
proof -
  have "description_parts sp = foldl add_new [] (candidates sp)"
    by (simp add: description_parts_def candidates_def Let_def foldl_collect_container_add_new
        collect_children_add_new split: option.splits)
  then show ?thesis by (simp add: foldl_add_new)
qed

lemma filter_parts_filter:
  "filter_parts parts = filter (\<lambda>part. \<not> has_skip_phrase part \<and> \<not> is_link_list part) parts"
  by (induction parts) (auto simp: has_skip_phrase_def is_link_list_def list_ex_iff)

section \<open>The scraping loop: supporting lemma\<close>

lemma scrape_loop_map:
  "scrape_loop scrape_page event_links events_data =
     events_data @
     map (\<lambda>event_url. case scrape_page event_url of
                         Inr event \<Rightarrow> event
                       | Inl e \<Rightarrow> failed_event event_url)
       event_links"
  by (induction scrape_page event_links events_data rule: scrape_loop.induct)
    (auto split: sum.splits)

section \<open>The claims on the time parser\<close>

text \<open>
  Claim C4.  For every valid 12-hour time text \<open>H:MM AM/PM\<close> or \<open>HH:MM AM/PM\<close> (hour
  1 to 12, with or without its leading zero; minute 0 to 59), alone or followed by
  \<open>' - '\<close> and any end time, \<open>parse_time_to_minutes\<close> returns the hour of the day
  times 60 plus the minute of the start time; the end time has no effect.
\<close>

theorem parse_time_to_minutes_clock:
  assumes "1 \<le> h" "h \<le> 12" "m < 60"
  shows "parse_time_to_minutes (clock_text padded h m pm) = int (hour24 h pm) * 60 + int m \<and>
         parse_time_to_minutes (clock_text padded h m pm @ '' - '' @ end_time) =
           int (hour24 h pm) * 60 + int m"
  using parse_time_start [OF clock_text_shape [OF assms] strptime_clock [OF assms]]
  by simp

text \<open>The example of the specification: \<open>'2:00 PM - 3:30 PM'\<close> gives 840.\<close>

theorem parse_time_to_minutes_clock_witness:
  "(1::nat) \<le> 2 \<and> (2::nat) \<le> 12 \<and> (0::nat) < 60 \<and>
   parse_time_to_minutes ''2:00 PM'' = 840 \<and>
   parse_time_to_minutes ''2:00 PM - 3:30 PM'' = 840"
  using parse_time_to_minutes_clock [of 2 0 False True "''3:30 PM''"]
  by (simp add: clock_text_def two_digits_def hour24_def digit_char_lits)

text \<open>
  Claim C5.  On the empty string, on the sentinel \<open>'No time found'\<close> and on every
  string whose start of range (the text before the first \<open>' - '\<close>, stripped) is not
  read by \<open>"%I:%M %p"\<close>, \<open>parse_time_to_minutes\<close> returns 0.  No error leaves the
  function: its model is a total function to the integers.
\<close>

theorem parse_time_to_minutes_fallback:
  assumes "s = [] \<or> s = ''No time found'' \<or>
           (\<exists>e. strptime_I_M_p (strip (hd (split '' - '' s))) = Inl e)"
  shows "parse_time_to_minutes s = 0"
  using assms by (auto simp: parse_time_to_minutes_def Let_def)

theorem parse_time_to_minutes_fallback_witness:
  "parse_time_to_minutes [] = 0 \<and>
   parse_time_to_minutes ''No time found'' = 0 \<and>
   strptime_I_M_p (strip (hd (split '' - '' ''garbage''))) = Inl ValueError \<and>
   parse_time_to_minutes ''garbage'' = 0 \<and>
   strptime_I_M_p (strip (hd (split '' - '' ''13:00 PM - 2:00 PM''))) = Inl ValueError \<and>
   parse_time_to_minutes ''13:00 PM - 2:00 PM'' = 0"
proof -
  have a: "strptime_I_M_p (strip (hd (split '' - '' ''garbage''))) = Inl ValueError"
    by (simp add: time_defs match_defs char_defs)
  have b: "strptime_I_M_p (strip (hd (split '' - '' ''13:00 PM - 2:00 PM''))) = Inl ValueError"
    by (simp add: time_defs match_defs char_defs)
  show ?thesis
    using a b parse_time_to_minutes_fallback [of "[]"]
      parse_time_to_minutes_fallback [of "''No time found''"]
      parse_time_to_minutes_fallback [of "''garbage''"]
      parse_time_to_minutes_fallback [of "''13:00 PM - 2:00 PM''"]
    by blast
qed

section \<open>The claims on the date parser\<close>

text \<open>
  Claim C6.  The date that \<open>sort_key\<close> of the week filter puts first in its key is,
  for every event, the date that \<open>parse_date_for_sorting\<close> of the organiser returns on
  the event's date text: the parsed date where the text parses, and \<open>datetime.max\<close> on
  every other text, the sentinel \<open>'No date found'\<close> included.
\<close>

theorem sort_key_date_is_parse_date_for_sorting:
  "fst (sort_key_event event) =
     parse_date_for_sorting (dict_get event ''date'' ''No date found'') \<and>
   fst (sort_key_event ((''date'', date_str) # items)) = parse_date_for_sorting date_str"
proof -
  have *: "fst (sort_key_event e) = parse_date_for_sorting (dict_get e ''date'' ''No date found'')"
    for e
    by (simp add: sort_key_event_def parse_date_for_sorting_def Let_def parse_date_part_sentinel
        split: sum.splits)
  show ?thesis using * [of event] * [of "(''date'', date_str) # items"]
    by (simp add: dict_get_def)
qed

theorem sort_key_date_is_parse_date_for_sorting_witness:
  "fst (sort_key_event [(''date'', ''Monday, Aug 1, 2025''), (''time'', ''2:00 PM'')]) =
     parse_date_for_sorting ''Monday, Aug 1, 2025'' \<and>
   fst (sort_key_event [(''date'', ''garbage'')]) = parse_date_for_sorting ''garbage'' \<and>
   fst (sort_key_event [(''title'', ''x'')]) = parse_date_for_sorting ''No date found''"
  using sort_key_date_is_parse_date_for_sorting [of "[(''title'', ''x'')]" "''garbage''" "[]"]
    sort_key_date_is_parse_date_for_sorting
      [of "[]" "''Monday, Aug 1, 2025''" "[(''time'', ''2:00 PM'')]"]
  by (simp add: dict_get_def)

text \<open>
  Claim C3, as stated, fails on a text with more than three segments: the parser reads
  segments 1 and 2 of the split and never looks at the others, so such a text is not a
  parse failure and does not give the sentinel.
\<close>

theorem parse_date_for_sorting_four_segments:
  "length (split '', '' ''Monday, Aug 1, 2025, extra'') = 4 \<and>
   parse_date_for_sorting ''Monday, Aug 1, 2025, extra'' = (ymd2ord 2025 8 1, 0) \<and>
   parse_date_for_sorting ''Monday, Aug 1, 2025, extra'' \<noteq> datetime_max"
  by (simp add: date_defs match_defs char_defs)

text \<open>
  Claim C3, amended.  On every text \<open>weekday, Mon D, YYYY\<close> (a weekday text without a
  comma, a calendar date of the years 1 to 9999) \<open>parse_date_for_sorting\<close> returns the
  date the text denotes.  A text with fewer than three segments gives \<open>datetime.max\<close>;
  a text with three or more is read from its segments 1 and 2 alone, and gives
  \<open>datetime.max\<close> when they do not parse.  Every parsed date is below \<open>datetime.max\<close>,
  so the texts that fail sort last.
\<close>

theorem parse_date_for_sorting_policy:
  "(CHR '','' \<notin> set wd \<and> valid_date y m d \<longrightarrow>
      parse_date_for_sorting (date_text wd padded y m d) = (ymd2ord (int y) (int m) (int d), 0)) \<and>
   (length (split '', '' s) < 3 \<longrightarrow> parse_date_for_sorting s = datetime_max) \<and>
   (3 \<le> length (split '', '' s) \<longrightarrow>
      parse_date_for_sorting s =
        (case strptime_b_d_Y (split '', '' s ! 1 @ '', '' @ split '', '' s ! 2) of
           Inr dt \<Rightarrow> dt
         | Inl e \<Rightarrow> datetime_max)) \<and>
   (\<forall>dt. parse_date_part s = Inr dt \<longrightarrow> parse_date_for_sorting s = dt \<and> dt < datetime_max)"
proof (intro conjI impI allI)
  assume "CHR '','' \<notin> set wd \<and> valid_date y m d"
  then show "parse_date_for_sorting (date_text wd padded y m d) =
      (ymd2ord (int y) (int m) (int d), 0)"
    by (simp add: parse_date_for_sorting_def parse_date_part_date_text)
next
  assume "length (split '', '' s) < 3"
  then show "parse_date_for_sorting s = datetime_max"
    by (auto simp: parse_date_for_sorting_def parse_date_part_def index_def split: sum.splits)
next
  assume "3 \<le> length (split '', '' s)"
  then show "parse_date_for_sorting s =
        (case strptime_b_d_Y (split '', '' s ! 1 @ '', '' @ split '', '' s ! 2) of
           Inr dt \<Rightarrow> dt
         | Inl e \<Rightarrow> datetime_max)"
    by (simp add: parse_date_for_sorting_def parse_date_part_def index_def split: sum.splits)
next
  fix dt assume "parse_date_part s = Inr dt"
  then show "parse_date_for_sorting s = dt" "dt < datetime_max"
    using parse_date_part_range(4) [of s dt] by (simp_all add: parse_date_for_sorting_def)
qed

text \<open>The examples of the specification: \<open>'Monday, Aug 1, 2025'\<close> and \<open>'garbage'\<close>.\<close>

theorem parse_date_for_sorting_policy_witness:
  "CHR '','' \<notin> set ''Monday'' \<and> valid_date 2025 8 1 \<and>
   parse_date_for_sorting ''Monday, Aug 1, 2025'' = (ymd2ord 2025 8 1, 0) \<and>
   ymd2ord 2025 8 1 = 739464 \<and>
   length (split '', '' ''garbage'') < 3 \<and>
   parse_date_for_sorting ''garbage'' = datetime_max \<and>
   parse_date_part ''Monday, Aug 1, 2025'' = Inr (739464, 0) \<and>
   ((739464, 0) :: datetime) < datetime_max"
proof -
  have a: "CHR '','' \<notin> set ''Monday''" by simp
  have b: "valid_date 2025 8 1" by (simp add: text_defs date_defs)
  have c: "date_text ''Monday'' False 2025 8 1 = ''Monday, Aug 1, 2025''" by (simp add: text_defs char_of_eq)
  have d: "length (split '', '' ''garbage'') < 3" by simp
  have e: "ymd2ord 2025 8 1 = 739464" by (simp add: date_defs)
  have f: "parse_date_part ''Monday, Aug 1, 2025'' = Inr (739464, 0)" by (simp add: date_defs match_defs char_defs)
  note p = parse_date_for_sorting_policy [of "''Monday''" 2025 8 1 False "''garbage''"]
  from p a b have "parse_date_for_sorting (date_text ''Monday'' False 2025 8 1) =
      (ymd2ord (int 2025) (int 8) (int 1), 0)"
    by blast
  then have g: "parse_date_for_sorting ''Monday, Aug 1, 2025'' = (ymd2ord 2025 8 1, 0)"
    unfolding c by simp
  from p d have h: "parse_date_for_sorting ''garbage'' = datetime_max" by blast
  from parse_date_for_sorting_policy [of "''Monday''" 2025 8 1 False "''Monday, Aug 1, 2025''"] f
  have i: "((739464, 0) :: datetime) < datetime_max" by blast
  show ?thesis using a b d e f g h i by simp
qed

section \<open>The claims on the week filter\<close>

text \<open>
  Claim C2, as stated, fails where the week leaves the years 1 to 9999: for the target
  \<open>'9999-12-31'\<close>, a Friday, and the week start day \<open>'Friday'\<close>, adding six days to
  the week start raises \<open>OverflowError\<close>, and no week end is computed.
\<close>

theorem week_window_overflow:
  "strptime_Y_m_d ''9999-12-31'' = Inr (MAXORDINAL, 0) \<and>
   dict_get day_mapping ''Friday'' 0 = 4 \<and>
   week_bounds (MAXORDINAL, 0) 4 = Inl OverflowError \<and>
   filter_events_by_week [] ''9999-12-31'' ''Friday'' = Inl OverflowError"
  by (simp add: week_defs date_defs time_defs match_defs char_defs)

text \<open>
  Claim C2, amended.  For every target date and each of the seven week start day names,
  \<open>filter_events_by_week\<close> takes as week start the target minus
  \<open>(weekday - index) mod 7\<close> days and as week end the week start plus 6 days.  When
  this week lies within the years 1 to 9999 it filters and sorts with them; the week
  start is not after the week end, the week has exactly 7 days, starts on the chosen
  weekday and holds the target.  When the week start would be before year 1 or the week
  end after year 9999, the date arithmetic raises \<open>OverflowError\<close> and the call fails
  with it.  With \<open>'Monday'\<close> and \<open>'2025-08-04'\<close> the event of
  \<open>'Monday, Aug 4, 2025'\<close> is kept and the one of \<open>'Sunday, Aug 3, 2025'\<close> is not.
\<close>

theorem week_window:
  assumes "week_start_day \<in> set (map fst day_mapping)"
    and "strptime_Y_m_d target_week = Inr target_date"
    and "n = dict_get day_mapping week_start_day 0"
    and "days = (weekday target_date - n) mod 7"
    and "week_start = (fst target_date - days, 0)" "week_end = (fst week_start + 6, 0)"
  shows "(0 < fst target_date - days \<and> fst target_date - days + 6 \<le> MAXORDINAL \<longrightarrow>
           week_bounds target_date n = Inr (week_start, week_end) \<and>
           filter_events_by_week events_data target_week week_start_day =
             Inr (sort_key sort_key_event (filter (in_week week_start week_end) events_data)) \<and>
           week_start \<le> week_end \<and> fst week_end - fst week_start + 1 = 7 \<and>
           weekday week_start = n \<and> week_start \<le> target_date \<and> target_date \<le> week_end) \<and>
         (fst target_date - days \<le> 0 \<or> MAXORDINAL < fst target_date - days + 6 \<longrightarrow>
           week_bounds target_date n = Inl OverflowError \<and>
           filter_events_by_week events_data target_week week_start_day = Inl OverflowError) \<and>
         filter_events_by_week
           [[(''title'', ''a''), (''date'', ''Monday, Aug 4, 2025''), (''time'', ''2:00 PM'')],
            [(''title'', ''b''), (''date'', ''Sunday, Aug 3, 2025''), (''time'', ''2:00 PM'')]]
           ''2025-08-04'' ''Monday'' =
         Inr [[(''title'', ''a''), (''date'', ''Monday, Aug 4, 2025''), (''time'', ''2:00 PM'')]]"
proof (intro conjI impI)
  have mid: "snd target_date = 0" using strptime_Y_m_d_midnight [OF assms(2)] .
  have n: "0 \<le> n" "n \<le> 6" using day_mapping_range [OF assms(1)] assms(3) by simp_all
  have d: "0 \<le> days" "days \<le> 6" using assms(4) by simp_all
  {
    assume r: "0 < fst target_date - days \<and> fst target_date - days + 6 \<le> MAXORDINAL"
    then have r1: "0 < fst target_date - days" and r2: "fst target_date - days + 6 \<le> MAXORDINAL"
      by simp_all
    show wb: "week_bounds target_date n = Inr (week_start, week_end)"
      using week_bounds_in_range [OF assms(4) r1 r2] mid assms(5,6) by simp
    show "filter_events_by_week events_data target_week week_start_day =
           Inr (sort_key sort_key_event (filter (in_week week_start week_end) events_data))"
      using wb assms(2,3) by (simp add: filter_events_by_week_def)
    show "weekday week_start = n"
      using week_start_weekday [OF n, of "fst target_date + 6"] assms(4,5)
      by (simp add: weekday_def algebra_simps)
    show "week_start \<le> week_end" "week_start \<le> target_date" "target_date \<le> week_end"
      using d mid assms(5,6) by (auto simp: less_eq_prod_def)
    show "fst week_end - fst week_start + 1 = 7" using assms(6) by simp
  }
  {
    assume o: "fst target_date - days \<le> 0 \<or> MAXORDINAL < fst target_date - days + 6"
    show wo: "week_bounds target_date n = Inl OverflowError"
      using o assms(4) by (auto simp: week_bounds_def add_days_def Let_def)
    show "filter_events_by_week events_data target_week week_start_day = Inl OverflowError"
      using wo assms(2,3) by (simp add: filter_events_by_week_def)
  }
  show "filter_events_by_week
           [[(''title'', ''a''), (''date'', ''Monday, Aug 4, 2025''), (''time'', ''2:00 PM'')],
            [(''title'', ''b''), (''date'', ''Sunday, Aug 3, 2025''), (''time'', ''2:00 PM'')]]
           ''2025-08-04'' ''Monday'' =
         Inr [[(''title'', ''a''), (''date'', ''Monday, Aug 4, 2025''), (''time'', ''2:00 PM'')]]"
    by (rule week_example)
qed

text \<open>
  The example of the specification, the week of 2025-08-04 to 2025-08-10; and a week
  that would start before year 1.
\<close>

theorem week_window_witness:
  "''Monday'' \<in> set (map fst day_mapping) \<and>
   strptime_Y_m_d ''2025-08-04'' = Inr (ymd2ord 2025 8 4, 0) \<and>
   dict_get day_mapping ''Monday'' 0 = 0 \<and>
   (weekday (ymd2ord 2025 8 4, 0) - 0) mod 7 = 0 \<and>
   week_bounds (ymd2ord 2025 8 4, 0) 0 = Inr ((ymd2ord 2025 8 4, 0), (ymd2ord 2025 8 10, 0)) \<and>
   filter_events_by_week
     [[(''title'', ''a''), (''date'', ''Monday, Aug 4, 2025''), (''time'', ''2:00 PM'')],
      [(''title'', ''b''), (''date'', ''Sunday, Aug 3, 2025''), (''time'', ''2:00 PM'')]]
     ''2025-08-04'' ''Monday'' =
   Inr [[(''title'', ''a''), (''date'', ''Monday, Aug 4, 2025''), (''time'', ''2:00 PM'')]] \<and>
   ''Tuesday'' \<in> set (map fst day_mapping) \<and>
   strptime_Y_m_d ''0001-01-01'' = Inr (1, 0) \<and>
   dict_get day_mapping ''Tuesday'' 0 = 1 \<and>
   (weekday (1, 0) - 1) mod 7 = 6 \<and>
   fst ((1, 0) :: datetime) - 6 \<le> 0 \<and>
   filter_events_by_week [] ''0001-01-01'' ''Tuesday'' = Inl OverflowError"
proof -
  have a: "''Monday'' \<in> set (map fst day_mapping)" by (simp add: day_mapping_def)
  have b: "strptime_Y_m_d ''2025-08-04'' = Inr (739467, 0)" by (simp add: date_defs match_defs char_defs)
  have c: "dict_get day_mapping ''Monday'' 0 = 0" by (simp add: day_mapping_def dict_get_def)
  have e: "ymd2ord 2025 8 4 = 739467" "ymd2ord 2025 8 10 = 739473" by (simp_all add: date_defs)
  have h3: "(0::int) = dict_get day_mapping ''Monday'' 0" using c by simp
  have h4: "(0::int) = (weekday (739467, 0) - 0) mod 7" by (simp add: weekday_def)
  have h5: "0 < fst ((739467, 0) :: datetime) - 0 \<and>
            fst ((739467, 0) :: datetime) - 0 + 6 \<le> MAXORDINAL" by (simp add: MAXORDINAL_def)
  have h7: "((739467, 0) :: datetime) = (fst ((739467, 0) :: datetime) - 0, 0)" by simp
  have h8: "((739473, 0) :: datetime) = (fst ((739467, 0) :: datetime) + 6, 0)" by simp
  note w = week_window [OF a b h3 h4 h7 h8, of "[]"]
  from w h5 have w1: "week_bounds (739467, 0) 0 = Inr ((739467, 0), (739473, 0))" by blast
  from w have w2: "filter_events_by_week
     [[(''title'', ''a''), (''date'', ''Monday, Aug 4, 2025''), (''time'', ''2:00 PM'')],
      [(''title'', ''b''), (''date'', ''Sunday, Aug 3, 2025''), (''time'', ''2:00 PM'')]]
     ''2025-08-04'' ''Monday'' =
   Inr [[(''title'', ''a''), (''date'', ''Monday, Aug 4, 2025''), (''time'', ''2:00 PM'')]]"
    by blast
  have h4': "(weekday (739467, 0) - 0) mod 7 = 0" using h4 by simp
  have a2: "''Tuesday'' \<in> set (map fst day_mapping)" by (simp add: day_mapping_def)
  have b2: "strptime_Y_m_d ''0001-01-01'' = Inr (1, 0)" by (simp add: date_defs match_defs char_defs)
  have c2: "dict_get day_mapping ''Tuesday'' 0 = 1" by (simp add: day_mapping_def dict_get_def)
  have d2: "(weekday (1, 0) - 1) mod 7 = 6" by (simp add: weekday_def)
  have o2: "fst ((1, 0) :: datetime) - 6 \<le> 0" by simp
  have g3: "(1::int) = dict_get day_mapping ''Tuesday'' 0" using c2 by simp
  have g4: "(6::int) = (weekday (1, 0) - 1) mod 7" using d2 by simp
  have g7: "((-5, 0) :: datetime) = (fst ((1, 0) :: datetime) - 6, 0)" by simp
  have g8: "((1, 0) :: datetime) = (fst ((-5, 0) :: datetime) + 6, 0)" by simp
  note v = week_window [OF a2 b2 g3 g4 g7 g8, of "[]"]
  from v o2 have v1: "filter_events_by_week [] ''0001-01-01'' ''Tuesday'' = Inl OverflowError"
    by blast
  show ?thesis
    unfolding e by (intro conjI a b c h4' w1 w2 a2 b2 c2 d2 o2 v1)
qed

text \<open>
  Claim C1.  For every events list and every target that is a date whose week is in
  range, \<open>filter_events_by_week\<close> returns a list that holds exactly the input events
  whose date text parses to a date from the week start to the week end, both included,
  each as often as the input has it; an event whose date text is \<open>'No date found'\<close> or
  does not parse is not in it; and the list is sorted by the pair of the parsed date and
  the minutes of the time parser.
\<close>

theorem filter_events_by_week_exact:
  assumes "strptime_Y_m_d target_week_start = Inr target_date"
    and "week_bounds target_date (dict_get day_mapping week_start_day 0) =
           Inr (week_start, week_end)"
  shows "\<exists>result.
           filter_events_by_week events_data target_week_start week_start_day = Inr result \<and>
           mset result = filter_mset (date_within week_start week_end) (mset events_data) \<and>
           (\<forall>event \<in> set result.
              \<exists>d. parse_date_part (dict_get event ''date'' ''No date found'') = Inr d \<and>
                  week_start \<le> d \<and> d \<le> week_end \<and>
                  date_time_key event = (d, parse_time_to_minutes (dict_get event ''time'' []))) \<and>
           (\<forall>event e.
              dict_get event ''date'' ''No date found'' = ''No date found'' \<or>
              parse_date_part (dict_get event ''date'' ''No date found'') = Inl e \<longrightarrow>
                event \<notin> set result) \<and>
           sorted (map date_time_key result)"
proof -
  define result where
    "result = sort_key sort_key_event (filter (date_within week_start week_end) events_data)"
  have r: "filter_events_by_week events_data target_week_start week_start_day = Inr result"
    using assms
    by (simp add: filter_events_by_week_def result_def in_week_date_within [abs_def])
  have m: "mset result = filter_mset (date_within week_start week_end) (mset events_data)"
    by (simp add: result_def)
  have s: "set result = {event \<in> set events_data. date_within week_start week_end event}"
    by (simp add: result_def)
  have k: "map date_time_key result = map sort_key_event result"
  proof (rule map_cong [OF refl])
    fix event assume "event \<in> set result"
    with s have "date_within week_start week_end event" by simp
    then show "date_time_key event = sort_key_event event"
      by (rule date_within_key [symmetric])
  qed
  have "sorted (map sort_key_event result)"
    unfolding result_def by (rule sorted_sort_key)
  then have sorted: "sorted (map date_time_key result)"
    by (simp only: k)
  have inn: "\<exists>d. parse_date_part (dict_get event ''date'' ''No date found'') = Inr d \<and>
                  week_start \<le> d \<and> d \<le> week_end \<and>
                  date_time_key event = (d, parse_time_to_minutes (dict_get event ''time'' []))"
    if "event \<in> set result" for event
  proof -
    from that s have "date_within week_start week_end event" by simp
    then obtain d where d: "parse_date_part (dict_get event ''date'' ''No date found'') = Inr d"
      "week_start \<le> d" "d \<le> week_end"
      by (auto simp: date_within_def split: sum.splits)
    with sort_key_event_parsed(2) [OF d(1)] show ?thesis by blast
  qed
  have out: "event \<notin> set result"
    if "dict_get event ''date'' ''No date found'' = ''No date found'' \<or>
        parse_date_part (dict_get event ''date'' ''No date found'') = Inl e" for event e
    using that s by (auto simp: date_within_def parse_date_part_sentinel)
  show ?thesis
    using r m inn out sorted by blast
qed

theorem filter_events_by_week_exact_witness:
  "strptime_Y_m_d ''2025-08-04'' = Inr (739467, 0) \<and>
   week_bounds (739467, 0) (dict_get day_mapping ''Monday'' 0) = Inr ((739467, 0), (739473, 0)) \<and>
   (\<exists>result.
      filter_events_by_week
        [[(''title'', ''late''), (''date'', ''Tuesday, Aug 5, 2025''), (''time'', ''2:00 PM'')],
         [(''title'', ''none''), (''date'', ''No date found''), (''time'', ''9:00 AM'')],
         [(''title'', ''early''), (''date'', ''Tuesday, Aug 5, 2025''), (''time'', ''10:30 AM - 12:00 PM'')],
         [(''title'', ''before''), (''date'', ''Sunday, Aug 3, 2025''), (''time'', ''9:00 AM'')],
         [(''title'', ''first''), (''date'', ''Monday, Aug 4, 2025''), (''time'', ''8:00 PM'')]]
        ''2025-08-04'' ''Monday'' = Inr result \<and>
      result =
        [[(''title'', ''first''), (''date'', ''Monday, Aug 4, 2025''), (''time'', ''8:00 PM'')],
         [(''title'', ''early''), (''date'', ''Tuesday, Aug 5, 2025''), (''time'', ''10:30 AM - 12:00 PM'')],
         [(''title'', ''late''), (''date'', ''Tuesday, Aug 5, 2025''), (''time'', ''2:00 PM'')]] \<and>
      sorted (map date_time_key result))"
proof -
  let ?evs = "[[(''title'', ''late''), (''date'', ''Tuesday, Aug 5, 2025''), (''time'', ''2:00 PM'')],
         [(''title'', ''none''), (''date'', ''No date found''), (''time'', ''9:00 AM'')],
         [(''title'', ''early''), (''date'', ''Tuesday, Aug 5, 2025''), (''time'', ''10:30 AM - 12:00 PM'')],
         [(''title'', ''before''), (''date'', ''Sunday, Aug 3, 2025''), (''time'', ''9:00 AM'')],
         [(''title'', ''first''), (''date'', ''Monday, Aug 4, 2025''), (''time'', ''8:00 PM'')]]"
  have a: "strptime_Y_m_d ''2025-08-04'' = Inr (739467, 0)" by (simp add: week_defs date_defs time_defs match_defs char_defs)
  have b: "week_bounds (739467, 0) (dict_get day_mapping ''Monday'' 0) =
      Inr ((739467, 0), (739473, 0))" by (simp add: week_defs date_defs time_defs match_defs char_defs)
  have c: "filter_events_by_week ?evs ''2025-08-04'' ''Monday'' =
      Inr [[(''title'', ''first''), (''date'', ''Monday, Aug 4, 2025''), (''time'', ''8:00 PM'')],
         [(''title'', ''early''), (''date'', ''Tuesday, Aug 5, 2025''), (''time'', ''10:30 AM - 12:00 PM'')],
         [(''title'', ''late''), (''date'', ''Tuesday, Aug 5, 2025''), (''time'', ''2:00 PM'')]]"
    by (simp add: week_defs date_defs time_defs match_defs char_defs)
  from filter_events_by_week_exact [OF a b, of ?evs]
  obtain result where r: "filter_events_by_week ?evs ''2025-08-04'' ''Monday'' = Inr result"
    "sorted (map date_time_key result)"
    by blast
  from r(1) c have "result =
        [[(''title'', ''first''), (''date'', ''Monday, Aug 4, 2025''), (''time'', ''8:00 PM'')],
         [(''title'', ''early''), (''date'', ''Tuesday, Aug 5, 2025''), (''time'', ''10:30 AM - 12:00 PM'')],
         [(''title'', ''late''), (''date'', ''Tuesday, Aug 5, 2025''), (''time'', ''2:00 PM'')]]"
    by simp
  with a b r show ?thesis by blast
qed

text \<open>
  Claim C10, as stated, fails where the week leaves the years 1 to 9999: the call with an
  unknown week start day raises \<open>OverflowError\<close> there, as the call with \<open>'Monday'\<close>
  does.
\<close>

theorem unknown_week_start_day_overflow:
  "''Mondy'' \<notin> set (map fst day_mapping) \<and>
   strptime_Y_m_d ''9999-12-30'' = Inr (MAXORDINAL - 1, 0) \<and>
   filter_events_by_week [] ''9999-12-30'' ''Mondy'' = Inl OverflowError"
  by (simp add: week_defs date_defs time_defs match_defs char_defs)

text \<open>
  Claim C10, amended.  A week start day that is none of the seven names raises nothing
  by itself: the index 0 is used, and the call behaves as the call with \<open>'Monday'\<close> on
  every events list and every target, an \<open>OverflowError\<close> for a week outside the years 1
  to 9999 included.  It returns the empty list for a target that is not a date, and the
  filtered and sorted list whenever the Monday-based week of the target is in range.
\<close>

theorem unknown_week_start_day:
  assumes "week_start_day \<notin> set (map fst day_mapping)"
  shows "dict_get day_mapping week_start_day 0 = 0 \<and>
         filter_events_by_week events_data target_week week_start_day =
           filter_events_by_week events_data target_week ''Monday'' \<and>
         (\<forall>e. strptime_Y_m_d target_week = Inl e \<longrightarrow>
              filter_events_by_week events_data target_week week_start_day = Inr []) \<and>
         (\<forall>target_date week_start week_end.
            strptime_Y_m_d target_week = Inr target_date \<and>
            week_bounds target_date 0 = Inr (week_start, week_end) \<longrightarrow>
              filter_events_by_week events_data target_week week_start_day =
                Inr (sort_key sort_key_event (filter (in_week week_start week_end) events_data)))"
proof -
  have a: "dict_get day_mapping week_start_day 0 = 0"
    using day_mapping_default [OF assms] .
  have b: "dict_get day_mapping ''Monday'' 0 = 0"
    by (simp add: day_mapping_def dict_get_def)
  show ?thesis
    by (auto simp: filter_events_by_week_def a b)
qed

theorem unknown_week_start_day_witness:
  "''Funday'' \<notin> set (map fst day_mapping) \<and> [] \<notin> set (map fst day_mapping) \<and>
   dict_get day_mapping ''Funday'' 0 = 0 \<and>
   filter_events_by_week [[(''date'', ''Monday, Aug 4, 2025'')]] ''2025-08-06'' ''Funday'' =
     filter_events_by_week [[(''date'', ''Monday, Aug 4, 2025'')]] ''2025-08-06'' ''Monday'' \<and>
   filter_events_by_week [[(''date'', ''Monday, Aug 4, 2025'')]] ''2025-08-06'' [] =
     filter_events_by_week [[(''date'', ''Monday, Aug 4, 2025'')]] ''2025-08-06'' ''Monday'' \<and>
   filter_events_by_week [[(''date'', ''Monday, Aug 4, 2025'')]] ''2025-08-06'' ''Monday'' =
     Inr [[(''date'', ''Monday, Aug 4, 2025'')]]"
proof -
  have a: "''Funday'' \<notin> set (map fst day_mapping)" by (simp add: day_mapping_def)
  have b: "[] \<notin> set (map fst day_mapping)" by (simp add: day_mapping_def)
  have c: "filter_events_by_week [[(''date'', ''Monday, Aug 4, 2025'')]] ''2025-08-06'' ''Monday'' =
     Inr [[(''date'', ''Monday, Aug 4, 2025'')]]" by (simp add: week_defs date_defs time_defs match_defs char_defs)
  note w1 = unknown_week_start_day [OF a, of "[[(''date'', ''Monday, Aug 4, 2025'')]]" "''2025-08-06''"]
  note w2 = unknown_week_start_day [OF b, of "[[(''date'', ''Monday, Aug 4, 2025'')]]" "''2025-08-06''"]
  show ?thesis
    by (intro conjI a b c w1 [THEN conjunct1] w1 [THEN conjunct2, THEN conjunct1]
        w2 [THEN conjunct2, THEN conjunct1])
qed

section \<open>The claim on the organiser\<close>

text \<open>
  Claim C7.  \<open>organize_events_by_date\<close> returns, for every events list, one group for
  each date text of the list, by equality of the raw text: the events of the list with
  that text, sorted by the minutes of the time parser, those with equal minutes in their
  input order.  The groups come in ascending order of the parsed date of their text,
  the texts that do not parse last.  The events of \<open>'Monday, Aug 4, 2025'\<close> and of
  \<open>'Mon, Aug 4, 2025'\<close> are in two groups, though they are of the same day.
\<close>

theorem organize_events_by_date_groups:
  "\<exists>result.
     organize_events_by_date events_data = Inr result \<and>
     distinct (map fst result) \<and>
     set (map fst result) = date_of ` set events_data \<and>
     (\<forall>(date, group) \<in> set result.
        group = sort_key minutes_of (filter (\<lambda>e. date_of e = date) events_data) \<and>
        mset group = filter_mset (\<lambda>e. date_of e = date) (mset events_data) \<and>
        sorted (map minutes_of group)) \<and>
     sorted (map (\<lambda>(date, group). parse_date_for_sorting date) result) \<and>
     (\<forall>i j e. i < j \<and> j < length result \<and> parse_date_part (fst (result ! i)) = Inl e \<longrightarrow>
        (\<exists>e'. parse_date_part (fst (result ! j)) = Inl e')) \<and>
     organize_events_by_date
       [[(''title'', ''a''), (''date'', ''Monday, Aug 4, 2025''), (''time'', ''2:00 PM'')],
        [(''title'', ''b''), (''date'', ''Mon, Aug 4, 2025''), (''time'', ''9:00 AM'')]] =
     Inr [(''Monday, Aug 4, 2025'',
             [[(''title'', ''a''), (''date'', ''Monday, Aug 4, 2025''), (''time'', ''2:00 PM'')]]),
          (''Mon, Aug 4, 2025'',
             [[(''title'', ''b''), (''date'', ''Mon, Aug 4, 2025''), (''time'', ''9:00 AM'')]])]"
proof -
  from organize_events_by_date_eq [of events_data] obtain dates where
    r: "organize_events_by_date events_data =
          Inr (map (\<lambda>k. (k, sort_key minutes_of (filter (\<lambda>e. date_of e = k) events_data))) dates)"
    and d: "distinct dates" "set dates = date_of ` set events_data"
    and s: "sorted (map parse_date_for_sorting dates)"
    by blast
  define result where
    "result = map (\<lambda>k. (k, sort_key minutes_of (filter (\<lambda>e. date_of e = k) events_data))) dates"
  have keys: "map fst result = dates" by (simp add: result_def comp_def)
  have g: "\<forall>(date, group) \<in> set result.
        group = sort_key minutes_of (filter (\<lambda>e. date_of e = date) events_data) \<and>
        mset group = filter_mset (\<lambda>e. date_of e = date) (mset events_data) \<and>
        sorted (map minutes_of group)"
    by (auto simp: result_def)
  have so: "sorted (map (\<lambda>(date, group). parse_date_for_sorting date) result)"
    using s by (simp add: result_def comp_def)
  have last: "\<exists>e'. parse_date_part (fst (result ! j)) = Inl e'"
    if "i < j \<and> j < length result \<and> parse_date_part (fst (result ! i)) = Inl e" for i j e
  proof (cases "parse_date_part (fst (result ! j))")
    case (Inl e')
    then show ?thesis by blast
  next
    case (Inr dt)
    have ij: "i < j" "j < length dates" "i < length dates" using that keys
      by (auto simp: result_def)
    have fi: "fst (result ! i) = dates ! i" "fst (result ! j) = dates ! j"
      using ij by (simp_all add: result_def)
    have "parse_date_for_sorting (dates ! i) \<le> parse_date_for_sorting (dates ! j)"
      using s ij by (simp add: sorted_iff_nth_mono)
    moreover have "parse_date_for_sorting (dates ! i) = datetime_max"
      using that fi by (simp add: parse_date_for_sorting_def)
    moreover have "parse_date_for_sorting (dates ! j) < datetime_max"
      using Inr fi parse_date_part_range(4) [of "dates ! j" dt]
      by (simp add: parse_date_for_sorting_def)
    ultimately show ?thesis by simp
  qed
  from r have r': "organize_events_by_date events_data = Inr result" by (simp add: result_def)
  have k1: "distinct (map fst result)" using d(1) keys by simp
  have k2: "set (map fst result) = date_of ` set events_data" using d(2) keys by simp
  have last': "\<forall>i j e. i < j \<and> j < length result \<and> parse_date_part (fst (result ! i)) = Inl e \<longrightarrow>
        (\<exists>e'. parse_date_part (fst (result ! j)) = Inl e')"
    using last by blast
  show ?thesis
    by (rule exI [of _ result]) (intro conjI r' k1 k2 g so last' organize_example)
qed

text \<open>Four events of three date texts, one of which does not parse.\<close>

theorem organize_events_by_date_groups_witness:
  "organize_events_by_date
     [[(''title'', ''a''), (''date'', ''Monday, Aug 4, 2025''), (''time'', ''2:00 PM'')],
      [(''title'', ''x''), (''date'', ''nonsense''), (''time'', ''1:00 PM'')],
      [(''title'', ''b''), (''date'', ''Sunday, Aug 3, 2025''), (''time'', ''9:00 AM'')],
      [(''title'', ''c''), (''date'', ''Monday, Aug 4, 2025''), (''time'', ''10:00 AM - 11:00 AM'')]] =
   Inr [(''Sunday, Aug 3, 2025'',
           [[(''title'', ''b''), (''date'', ''Sunday, Aug 3, 2025''), (''time'', ''9:00 AM'')]]),
        (''Monday, Aug 4, 2025'',
           [[(''title'', ''c''), (''date'', ''Monday, Aug 4, 2025''), (''time'', ''10:00 AM - 11:00 AM'')],
            [(''title'', ''a''), (''date'', ''Monday, Aug 4, 2025''), (''time'', ''2:00 PM'')]]),
        (''nonsense'',
           [[(''title'', ''x''), (''date'', ''nonsense''), (''time'', ''1:00 PM'')]])] \<and>
   sorted (map (\<lambda>(date, group). parse_date_for_sorting date)
     [(''Sunday, Aug 3, 2025'',
           [[(''title'', ''b''), (''date'', ''Sunday, Aug 3, 2025''), (''time'', ''9:00 AM'')]]),
        (''Monday, Aug 4, 2025'',
           [[(''title'', ''c''), (''date'', ''Monday, Aug 4, 2025''), (''time'', ''10:00 AM - 11:00 AM'')],
            [(''title'', ''a''), (''date'', ''Monday, Aug 4, 2025''), (''time'', ''2:00 PM'')]]),
        (''nonsense'',
           [[(''title'', ''x''), (''date'', ''nonsense''), (''time'', ''1:00 PM'')]])]) \<and>
   parse_date_part ''nonsense'' = Inl IndexError"
proof -
  let ?evs = "[[(''title'', ''a''), (''date'', ''Monday, Aug 4, 2025''), (''time'', ''2:00 PM'')],
      [(''title'', ''x''), (''date'', ''nonsense''), (''time'', ''1:00 PM'')],
      [(''title'', ''b''), (''date'', ''Sunday, Aug 3, 2025''), (''time'', ''9:00 AM'')],
      [(''title'', ''c''), (''date'', ''Monday, Aug 4, 2025''), (''time'', ''10:00 AM - 11:00 AM'')]]"
  let ?res = "[(''Sunday, Aug 3, 2025'',
           [[(''title'', ''b''), (''date'', ''Sunday, Aug 3, 2025''), (''time'', ''9:00 AM'')]]),
        (''Monday, Aug 4, 2025'',
           [[(''title'', ''c''), (''date'', ''Monday, Aug 4, 2025''), (''time'', ''10:00 AM - 11:00 AM'')],
            [(''title'', ''a''), (''date'', ''Monday, Aug 4, 2025''), (''time'', ''2:00 PM'')]]),
        (''nonsense'',
           [[(''title'', ''x''), (''date'', ''nonsense''), (''time'', ''1:00 PM'')]])]"
  have e: "organize_events_by_date ?evs = Inr ?res"
    by (simp add: organize_defs date_defs time_defs match_defs char_defs)
  have n: "parse_date_part ''nonsense'' = Inl IndexError" by (simp add: date_defs)
  from organize_events_by_date_groups [of ?evs] obtain result where
    r: "organize_events_by_date ?evs = Inr result"
      "sorted (map (\<lambda>(date, group). parse_date_for_sorting date) result)"
    by blast
  from r(1) e have "result = ?res" by simp
  with r(2) have "sorted (map (\<lambda>(date, group). parse_date_for_sorting date) ?res)" by simp
  then show ?thesis by (intro conjI e n)
qed

section \<open>The claim on the description extractor\<close>

text \<open>
  Claim C8, as stated, fails on a collected string of more than 20 words that has the
  word \<open>services\<close>: it has no phrase of the denylist, and the filtering loop drops it
  all the same, so that the strings without a denylist phrase are not all joined.
\<close>

theorem extract_description_drops_link_list:
  "\<not> has_skip_phrase
      ''Our services a b c d e f g h i j k l m n o p q r s'' \<and>
   description_parts
     \<lparr>containers =
        [\<lparr>container_text = ''x'',
          p_texts = [''Our services a b c d e f g h i j k l m n o p q r s''],
          i_texts = [], li_texts = [], a_texts = []\<rparr>],
      main_div = None\<rparr> =
     [''Our services a b c d e f g h i j k l m n o p q r s''] \<and>
   extract_description
     \<lparr>containers =
        [\<lparr>container_text = ''x'',
          p_texts = [''Our services a b c d e f g h i j k l m n o p q r s''],
          i_texts = [], li_texts = [], a_texts = []\<rparr>],
      main_div = None\<rparr> =
     ''No description found''"
  by (simp add: has_skip_phrase_def description_defs char_defs)

text \<open>
  Claim C8, amended.  For every parsed document the collected strings are the candidates
  of the five steps, each once and where it occurs first: a candidate equal to a string
  already collected is discarded, whatever step collected it.  The filtering loop drops
  the strings whose lower-case form has a denylist phrase and the strings of more than 20
  words that have one of the three list words, and no others.  The description is the
  other strings joined with single spaces in collection order, and
  \<open>'No description found'\<close> when there is none.  Two equal paragraphs of two containers,
  met again as a text child of the main division, give one entry; a paragraph with
  \<open>'Contact Us'\<close> is left out.
\<close>

theorem extract_description_dedup_filter_join:
  "description_parts sp = first_occurrences (candidates sp) \<and>
   filter_parts parts =
     filter (\<lambda>part. \<not> has_skip_phrase part \<and> \<not> is_link_list part) parts \<and>
   extract_description sp =
     (if filter (\<lambda>part. \<not> has_skip_phrase part \<and> \<not> is_link_list part)
           (first_occurrences (candidates sp)) = []
      then ''No description found''
      else join '' ''
             (filter (\<lambda>part. \<not> has_skip_phrase part \<and> \<not> is_link_list part)
                (first_occurrences (candidates sp)))) \<and>
   distinct (description_parts sp) \<and>
   subseq (filter_parts (description_parts sp)) (description_parts sp) \<and>
   distinct (filter_parts (description_parts sp)) \<and>
   (\<forall>part skip. skip \<in> set skip_phrases \<and> contains skip (lower part) \<longrightarrow>
      part \<notin> set (filter_parts (description_parts sp))) \<and>
   extract_description sp =
     (if filter_parts (description_parts sp) = [] then ''No description found''
      else join '' '' (filter_parts (description_parts sp))) \<and>
   extract_description
     \<lparr>containers =
        [\<lparr>container_text = ''Story time for children.'', p_texts = [''Story time for children.''],
          i_texts = [], li_texts = [], a_texts = []\<rparr>,
         \<lparr>container_text = ''Story time for children. Bring a blanket'',
          p_texts = [''Story time for children.''], i_texts = [], li_texts = [''Bring a blanket''],
          a_texts = []\<rparr>],
      main_div = Some [None, Some ''  Story time for children.  '']\<rparr> =
   ''Story time for children. Bring a blanket'' \<and>
   extract_description
     \<lparr>containers =
        [\<lparr>container_text = ''x'',
          p_texts = [''Please Contact Us for details'', ''Story time for children.''],
          i_texts = [], li_texts = [], a_texts = []\<rparr>],
      main_div = None\<rparr> =
   ''Story time for children.''"
proof -
  have a: "\<forall>part skip. skip \<in> set skip_phrases \<and> contains skip (lower part) \<longrightarrow>
      part \<notin> set (filter_parts (description_parts sp))"
    using filter_parts_no_skip by blast
  have b: "extract_description sp =
     (if filter_parts (description_parts sp) = [] then ''No description found''
      else join '' '' (filter_parts (description_parts sp)))"
    by (simp add: extract_description_def Let_def)
  have c: "extract_description sp =
     (if filter (\<lambda>part. \<not> has_skip_phrase part \<and> \<not> is_link_list part)
           (first_occurrences (candidates sp)) = []
      then ''No description found''
      else join '' ''
             (filter (\<lambda>part. \<not> has_skip_phrase part \<and> \<not> is_link_list part)
                (first_occurrences (candidates sp))))"
    by (simp add: extract_description_def Let_def filter_parts_filter
        description_parts_first_occurrences)
  show ?thesis
    by (intro conjI description_parts_first_occurrences filter_parts_filter c
        description_parts_distinct filter_parts_subseq
        filter_parts_distinct [OF description_parts_distinct] a b
        description_example_duplicate description_example_contact)
qed

text \<open>A paragraph met twice and again in italics; a paragraph with a denylist phrase.\<close>

theorem extract_description_dedup_filter_join_witness:
  "''contact us'' \<in> set skip_phrases \<and>
   contains ''contact us'' (lower ''Please Contact Us for details'') \<and>
   description_parts
     \<lparr>containers =
        [\<lparr>container_text = ''x'',
          p_texts = [''Please Contact Us for details'', ''Story time for children.'',
                     ''Please Contact Us for details''],
          i_texts = [''Story time for children.''], li_texts = [], a_texts = []\<rparr>],
      main_div = None\<rparr> =
     [''Please Contact Us for details'', ''Story time for children.''] \<and>
   ''Please Contact Us for details'' \<notin>
     set (filter_parts [''Please Contact Us for details'', ''Story time for children.'']) \<and>
   distinct [''Please Contact Us for details'', ''Story time for children.''] \<and>
   first_occurrences
     [''Please Contact Us for details'', ''Story time for children.'',
      ''Please Contact Us for details'', ''Story time for children.''] =
     [''Please Contact Us for details'', ''Story time for children.''] \<and>
   filter_parts [''Please Contact Us for details'', ''Story time for children.''] =
     [''Story time for children.'']"
proof -
  let ?sp = "\<lparr>containers =
        [\<lparr>container_text = ''x'',
          p_texts = [''Please Contact Us for details'', ''Story time for children.'',
                     ''Please Contact Us for details''],
          i_texts = [''Story time for children.''], li_texts = [], a_texts = []\<rparr>],
      main_div = None\<rparr>"
  have a: "''contact us'' \<in> set skip_phrases" by (simp add: skip_phrases_def)
  have b: "contains ''contact us'' (lower ''Please Contact Us for details'')"
    by (simp add: char_defs)
  have c: "description_parts ?sp =
      [''Please Contact Us for details'', ''Story time for children.'']"
    by (simp add: description_defs)
  note t = extract_description_dedup_filter_join [of ?sp]
  from t a b have d: "''Please Contact Us for details'' \<notin>
     set (filter_parts (description_parts ?sp))"
    by blast
  from t have e: "distinct (description_parts ?sp)" by blast
  have k: "candidates ?sp =
      [''Please Contact Us for details'', ''Story time for children.'',
       ''Please Contact Us for details'', ''Story time for children.'']"
    by (simp add: candidates_def container_candidates_def)
  from t have "description_parts ?sp = first_occurrences (candidates ?sp)" by (rule conjunct1)
  then have f: "first_occurrences
     [''Please Contact Us for details'', ''Story time for children.'',
      ''Please Contact Us for details'', ''Story time for children.''] =
     [''Please Contact Us for details'', ''Story time for children.'']"
    unfolding k c by (rule sym)
  have g: "filter_parts [''Please Contact Us for details'', ''Story time for children.''] =
     [''Story time for children.'']"
    by (simp add: description_defs char_defs)
  note d' = d [unfolded c] and e' = e [unfolded c]
  show ?thesis
    by (intro conjI a b c d' e' f g)
qed

section \<open>The claim on the scraping loop\<close>

text \<open>
  Claim C9, as stated, fails on the field \<open>url\<close>: the record appended for a link whose
  page could not be scraped keeps the link there, not a \<open>'Failed to scrape'\<close> string.
\<close>

theorem failed_event_keeps_url:
  "scrape_loop (\<lambda>event_url. Inl ValueError) [''https://www.santamonica.gov/events/1''] [] =
     [failed_event ''https://www.santamonica.gov/events/1''] \<and>
   dict_get (failed_event ''https://www.santamonica.gov/events/1'') ''url'' [] =
     ''https://www.santamonica.gov/events/1'' \<and>
   dict_get (failed_event ''https://www.santamonica.gov/events/1'') ''url'' [] \<noteq>
     ''Failed to scrape url''"
  by (simp add: failed_event_def dict_get_def)

text \<open>
  Claim C9, amended.  The loop appends one record for each event link, in the order of
  the links, whatever the body of the \<open>try\<close> raises: the extracted record, or for a
  link on which the body raises a record that holds the link under \<open>url\<close> and under
  each other field its own \<open>'Failed to scrape ...'\<close> string, the name of the field after
  these words (\<open>'location link'\<close> for \<open>location_link\<close>); the six strings are pairwise
  different.  The loop goes on with the next link.
\<close>

theorem scrape_loop_recovers:
  "scrape_loop scrape_page event_links events_data =
     events_data @
     map (\<lambda>event_url. case scrape_page event_url of
                         Inr event \<Rightarrow> event
                       | Inl e \<Rightarrow> failed_event event_url)
       event_links \<and>
   length (scrape_loop scrape_page event_links events_data) =
     length events_data + length event_links \<and>
   (\<forall>i e. i < length event_links \<and> scrape_page (event_links ! i) = Inl e \<longrightarrow>
      scrape_loop scrape_page event_links events_data ! (length events_data + i) =
        failed_event (event_links ! i)) \<and>
   map fst (failed_event event_url) =
     [''url'', ''title'', ''date'', ''time'', ''location'', ''location_link'', ''description''] \<and>
   dict_get (failed_event event_url) ''url'' dflt = event_url \<and>
   (\<forall>field \<in> set [''title'', ''date'', ''time'', ''location'', ''description''].
      dict_get (failed_event event_url) field dflt = ''Failed to scrape '' @ field) \<and>
   dict_get (failed_event event_url) ''location_link'' dflt = ''Failed to scrape location link'' \<and>
   distinct (map snd (tl (failed_event event_url)))"
proof -
  have i: "scrape_loop scrape_page event_links events_data ! (length events_data + i) =
        failed_event (event_links ! i)"
    if "i < length event_links \<and> scrape_page (event_links ! i) = Inl e" for i e
    using that by (simp add: scrape_loop_map nth_append)
  have f: "\<forall>field \<in> set [''title'', ''date'', ''time'', ''location'', ''description''].
      dict_get (failed_event event_url) field dflt = ''Failed to scrape '' @ field"
    by (simp add: failed_event_def dict_get_def)
  show ?thesis
    using i f by (simp add: scrape_loop_map failed_event_def dict_get_def)
qed

text \<open>Three links, the second of which fails.\<close>

theorem scrape_loop_recovers_witness:
  "(1::nat) < length [''a'', ''b'', ''c''] \<and>
   (\<lambda>u. if u = ''b'' then Inl ValueError else Inr [(''url'', u)]) ([''a'', ''b'', ''c''] ! 1) =
     Inl ValueError \<and>
   scrape_loop (\<lambda>u. if u = ''b'' then Inl ValueError else Inr [(''url'', u)])
     [''a'', ''b'', ''c''] [] ! 1 = failed_event ''b'' \<and>
   scrape_loop (\<lambda>u. if u = ''b'' then Inl ValueError else Inr [(''url'', u)])
     [''a'', ''b'', ''c''] [] =
     [[(''url'', ''a'')], failed_event ''b'', [(''url'', ''c'')]] \<and>
   ''title'' \<in> set [''title'', ''date'', ''time'', ''location'', ''description''] \<and>
   dict_get (failed_event ''b'') ''title'' [] = ''Failed to scrape title''"
proof -
  let ?f = "\<lambda>u. if u = ''b'' then Inl ValueError else Inr [(''url'', u)]"
  note t = scrape_loop_recovers [of ?f "[''a'', ''b'', ''c'']" "[]" "''b''" "[]"]
  have a: "(1::nat) < length [''a'', ''b'', ''c'']" by simp
  have b: "?f ([''a'', ''b'', ''c''] ! 1) = Inl ValueError" by simp
  from t a b have c: "scrape_loop ?f [''a'', ''b'', ''c''] [] ! (length ([] :: event list) + 1) =
      failed_event ([''a'', ''b'', ''c''] ! 1)"
    by blast
  then have c': "scrape_loop ?f [''a'', ''b'', ''c''] [] ! 1 = failed_event ''b''" by simp
  from t have "scrape_loop ?f [''a'', ''b'', ''c''] [] =
      [] @ map (\<lambda>event_url. case ?f event_url of Inr event \<Rightarrow> event
                  | Inl e \<Rightarrow> failed_event event_url) [''a'', ''b'', ''c'']"
    by (rule conjunct1)
  then have d: "scrape_loop ?f [''a'', ''b'', ''c''] [] =
     [[(''url'', ''a'')], failed_event ''b'', [(''url'', ''c'')]]"
    by simp
  have e: "''title'' \<in> set [''title'', ''date'', ''time'', ''location'', ''description'']"
    by simp
  from t e have g: "dict_get (failed_event ''b'') ''title'' [] = ''Failed to scrape '' @ ''title''"
    by blast
  then have g': "dict_get (failed_event ''b'') ''title'' [] = ''Failed to scrape title''" by simp
  show ?thesis by (intro conjI a b c' d e g')
qed

end
